theory Spec2Isabelle
  imports Main "HOL-Library.Word"
begin

section \<open>Solidity values and revert reasons\<close>

type_synonym address = "160 word"
type_synonym uint256 = "256 word"

text \<open>
  A reverted call is a value \<open>Inl e\<close>; a call that goes through returns \<open>Inr\<close> of the
  new state. \<open>Error\<close> carries the message of a failed \<open>require\<close>, \<open>Panic\<close> the code of a
  checked-arithmetic failure (0x11), the others are the custom errors of the OpenZeppelin 5
  contracts that \<open>ERC20Mock\<close> and the bridges inherit from.
\<close>

datatype error =
    Error string
  | Panic nat
  | OwnableUnauthorizedAccount address
  | OwnableInvalidOwner address
  | ERC20InsufficientBalance address uint256 uint256
  | ERC20InsufficientAllowance address uint256 uint256
  | ERC20InvalidSender address
  | ERC20InvalidReceiver address
  | ERC20InvalidApprover address
  | ERC20InvalidSpender address

section \<open>contracts/mocks/ERC20Mock.sol\<close>

text \<open>
  \<open>ERC20Mock\<close> is OpenZeppelin's \<open>ERC20\<close> and \<open>Ownable\<close> with two functions added. The
  inherited functions are those of the OpenZeppelin Contracts 5 library that the source
  imports (\<open>Ownable(msg.sender)\<close> is the constructor of that version), written here as the
  library defines them; the \<open>Transfer\<close> and \<open>Approval\<close> events of the token are not
  recorded. The caller of a function is its first argument, \<open>msg_sender\<close>.

  Storage of an \<open>ERC20Mock\<close>: the \<open>_balances\<close>, \<open>_allowances\<close> and \<open>_totalSupply\<close> of
  \<open>ERC20\<close> and the \<open>_owner\<close> of \<open>Ownable\<close>.
\<close>

record ERC20Mock =
  balances :: "address \<Rightarrow> uint256"
  allowances :: "address \<Rightarrow> address \<Rightarrow> uint256"
  totalSupply :: uint256
  tok_owner :: address

text \<open>\<open>Ownable._checkOwner\<close>, the body of the modifier \<open>onlyOwner\<close>.\<close>

definition checkOwner :: "address \<Rightarrow> address \<Rightarrow> error + unit" where
  "checkOwner msg_sender ownr =
     (if ownr \<noteq> msg_sender then Inl (OwnableUnauthorizedAccount msg_sender) else Inr ())"

text \<open>
  \<open>ERC20._update\<close>: the supply is increased with overflow checking, the balance of
  \<open>from\<close> is checked and decreased, and the credit to \<open>to\<close> (or the decrease of the supply
  on a burn) is unchecked, so it is the wrapping operation of the word type.
\<close>

definition erc20_update :: "address \<Rightarrow> address \<Rightarrow> uint256 \<Rightarrow> ERC20Mock \<Rightarrow> error + ERC20Mock" where
  "erc20_update from to val t =
     (case (if from = 0 then
              (if unat (totalSupply t) + unat val < 2 ^ 256
               then Inr (t\<lparr>totalSupply := totalSupply t + val\<rparr>)
               else Inl (Panic 17))
            else
              (let fromBalance = balances t from in
               if fromBalance < val then Inl (ERC20InsufficientBalance from fromBalance val)
               else Inr (t\<lparr>balances := (balances t)(from := fromBalance - val)\<rparr>)))
      of Inl e \<Rightarrow> Inl e
       | Inr t1 \<Rightarrow>
           Inr (if to = 0 then t1\<lparr>totalSupply := totalSupply t1 - val\<rparr>
                else t1\<lparr>balances := (balances t1)(to := balances t1 to + val)\<rparr>))"

text \<open>\<open>ERC20._mint\<close> and \<open>ERC20._burn\<close>.\<close>

definition erc20_mint :: "address \<Rightarrow> uint256 \<Rightarrow> ERC20Mock \<Rightarrow> error + ERC20Mock" where
  "erc20_mint account val t =
     (if account = 0 then Inl (ERC20InvalidReceiver 0) else erc20_update 0 account val t)"

definition erc20_burn :: "address \<Rightarrow> uint256 \<Rightarrow> ERC20Mock \<Rightarrow> error + ERC20Mock" where
  "erc20_burn account val t =
     (if account = 0 then Inl (ERC20InvalidSender 0) else erc20_update account 0 val t)"

text \<open>\<open>ERC20._transfer\<close>, \<open>ERC20._approve\<close> and \<open>ERC20._spendAllowance\<close>.\<close>

definition erc20_transfer :: "address \<Rightarrow> address \<Rightarrow> uint256 \<Rightarrow> ERC20Mock \<Rightarrow> error + ERC20Mock" where
  "erc20_transfer from to val t =
     (if from = 0 then Inl (ERC20InvalidSender 0)
      else if to = 0 then Inl (ERC20InvalidReceiver 0)
      else erc20_update from to val t)"

definition erc20_approve :: "address \<Rightarrow> address \<Rightarrow> uint256 \<Rightarrow> ERC20Mock \<Rightarrow> error + ERC20Mock" where
  "erc20_approve ownr spender val t =
     (if ownr = 0 then Inl (ERC20InvalidApprover 0)
      else if spender = 0 then Inl (ERC20InvalidSpender 0)
      else Inr (t\<lparr>allowances := (allowances t)(ownr := (allowances t ownr)(spender := val))\<rparr>))"

definition spendAllowance :: "address \<Rightarrow> address \<Rightarrow> uint256 \<Rightarrow> ERC20Mock \<Rightarrow> error + ERC20Mock" where
  "spendAllowance ownr spender val t =
     (let currentAllowance = allowances t ownr spender in
      if currentAllowance < - 1 then
        (if currentAllowance < val
         then Inl (ERC20InsufficientAllowance spender currentAllowance val)
         else erc20_approve ownr spender (currentAllowance - val) t)
      else Inr t)"

text \<open>The external functions \<open>transfer\<close>, \<open>approve\<close> and \<open>transferFrom\<close> of \<open>ERC20\<close>.\<close>

definition transfer :: "address \<Rightarrow> address \<Rightarrow> uint256 \<Rightarrow> ERC20Mock \<Rightarrow> error + ERC20Mock" where
  "transfer msg_sender to val t = erc20_transfer msg_sender to val t"

definition approve :: "address \<Rightarrow> address \<Rightarrow> uint256 \<Rightarrow> ERC20Mock \<Rightarrow> error + ERC20Mock" where
  "approve msg_sender spender val t = erc20_approve msg_sender spender val t"

definition transferFrom ::
  "address \<Rightarrow> address \<Rightarrow> address \<Rightarrow> uint256 \<Rightarrow> ERC20Mock \<Rightarrow> error + ERC20Mock" where
  "transferFrom msg_sender from to val t =
     (case spendAllowance from msg_sender val t of
        Inl e \<Rightarrow> Inl e
      | Inr t1 \<Rightarrow> erc20_transfer from to val t1)"

text \<open>\<open>Ownable.transferOwnership\<close>, as \<open>ERC20Mock\<close> inherits it.\<close>

definition transferOwnership :: "address \<Rightarrow> address \<Rightarrow> ERC20Mock \<Rightarrow> error + ERC20Mock" where
  "transferOwnership msg_sender newOwner t =
     (case checkOwner msg_sender (tok_owner t) of
        Inl e \<Rightarrow> Inl e
      | Inr _ \<Rightarrow>
          if newOwner = 0 then Inl (OwnableInvalidOwner 0)
          else Inr (t\<lparr>tok_owner := newOwner\<rparr>))"

text \<open>The two functions \<open>ERC20Mock\<close> adds: \<open>mint\<close> and \<open>burnFrom\<close>, both \<open>onlyOwner\<close>.\<close>

definition mint :: "address \<Rightarrow> address \<Rightarrow> uint256 \<Rightarrow> ERC20Mock \<Rightarrow> error + ERC20Mock" where
  "mint msg_sender to amount t =
     (case checkOwner msg_sender (tok_owner t) of
        Inl e \<Rightarrow> Inl e
      | Inr _ \<Rightarrow> erc20_mint to amount t)"

definition burnFrom :: "address \<Rightarrow> address \<Rightarrow> uint256 \<Rightarrow> ERC20Mock \<Rightarrow> error + ERC20Mock" where
  "burnFrom msg_sender from amount t =
     (case checkOwner msg_sender (tok_owner t) of
        Inl e \<Rightarrow> Inl e
      | Inr _ \<Rightarrow> erc20_burn from amount t)"

text \<open>The constructor: no balances, no allowances, the deployer owns the token.\<close>

definition ERC20Mock_constructor :: "address \<Rightarrow> error + ERC20Mock" where
  "ERC20Mock_constructor msg_sender =
     (if msg_sender = 0 then Inl (OwnableInvalidOwner 0)
      else Inr \<lparr>balances = (\<lambda>_. 0), allowances = (\<lambda>_ _. 0), totalSupply = 0,
                tok_owner = msg_sender\<rparr>)"

section \<open>BridgeSourceChain and BridgeDestinationChain\<close>

text \<open>
  Storage of the two bridges. The immutable \<open>token\<close> and \<open>wrappedToken\<close> addresses are
  those of the two tokens of the world below, as \<open>scripts/relayer.ts\<close> and the test deploy
  them, so the external calls of the bridges are resolved to these tokens.
\<close>

record BridgeSourceChain =
  src_owner :: address
  src_relayer :: address

record BridgeDestinationChain =
  dst_owner :: address
  dst_relayer :: address

text \<open>
  The arguments of a \<open>TokenLocked\<close> or \<open>TokenBurned\<close> event: user, amount, destination.
  The world is the storage of the four contracts, the addresses of the two bridges
  (\<open>address(this)\<close> in \<open>lock\<close>, and the sender of the calls the bridges make to the
  tokens) and the two event logs of the bridges.
\<close>

type_synonym event_args = "address \<times> uint256 \<times> address"

record World =
  sourceToken :: ERC20Mock
  wrappedToken :: ERC20Mock
  sourceBridge :: BridgeSourceChain
  destBridge :: BridgeDestinationChain
  sourceBridgeAddress :: address
  destBridgeAddress :: address
  tokenLocked :: "event_args list"
  tokenBurned :: "event_args list"

definition BridgeSource_setRelayer :: "address \<Rightarrow> address \<Rightarrow> World \<Rightarrow> error + World" where
  "BridgeSource_setRelayer msg_sender newRelayer w =
     (case checkOwner msg_sender (src_owner (sourceBridge w)) of
        Inl e \<Rightarrow> Inl e
      | Inr _ \<Rightarrow> Inr (w\<lparr>sourceBridge := (sourceBridge w)\<lparr>src_relayer := newRelayer\<rparr>\<rparr>))"

definition lock :: "address \<Rightarrow> uint256 \<Rightarrow> address \<Rightarrow> World \<Rightarrow> error + World" where
  "lock msg_sender amount destination w =
     (if \<not> 0 < amount then Inl (Error ''BridgeSource: Amount must be greater than 0'')
      else case transferFrom (sourceBridgeAddress w) msg_sender (sourceBridgeAddress w) amount
                  (sourceToken w) of
        Inl e \<Rightarrow> Inl e
      | Inr t \<Rightarrow>
          Inr (w\<lparr>sourceToken := t,
                 tokenLocked := tokenLocked w @ [(msg_sender, amount, destination)]\<rparr>))"

definition release :: "address \<Rightarrow> address \<Rightarrow> uint256 \<Rightarrow> World \<Rightarrow> error + World" where
  "release msg_sender user amount w =
     (if msg_sender \<noteq> src_relayer (sourceBridge w)
      then Inl (Error ''BridgeSource: Caller is not the relayer'')
      else if \<not> 0 < amount then Inl (Error ''BridgeSource: Amount must be greater than 0'')
      else case transfer (sourceBridgeAddress w) user amount (sourceToken w) of
        Inl e \<Rightarrow> Inl e
      | Inr t \<Rightarrow> Inr (w\<lparr>sourceToken := t\<rparr>))"

definition BridgeDest_setRelayer :: "address \<Rightarrow> address \<Rightarrow> World \<Rightarrow> error + World" where
  "BridgeDest_setRelayer msg_sender newRelayer w =
     (case checkOwner msg_sender (dst_owner (destBridge w)) of
        Inl e \<Rightarrow> Inl e
      | Inr _ \<Rightarrow> Inr (w\<lparr>destBridge := (destBridge w)\<lparr>dst_relayer := newRelayer\<rparr>\<rparr>))"

definition mintWrapped :: "address \<Rightarrow> address \<Rightarrow> uint256 \<Rightarrow> World \<Rightarrow> error + World" where
  "mintWrapped msg_sender user amount w =
     (if msg_sender \<noteq> dst_relayer (destBridge w)
      then Inl (Error ''BridgeDest: Caller is not the relayer'')
      else if \<not> 0 < amount then Inl (Error ''BridgeDest: Amount must be greater than 0'')
      else case mint (destBridgeAddress w) user amount (wrappedToken w) of
        Inl e \<Rightarrow> Inl e
      | Inr t \<Rightarrow> Inr (w\<lparr>wrappedToken := t\<rparr>))"

definition burn :: "address \<Rightarrow> uint256 \<Rightarrow> address \<Rightarrow> World \<Rightarrow> error + World" where
  "burn msg_sender amount destination w =
     (if \<not> 0 < amount then Inl (Error ''BridgeDest: Amount must be greater than 0'')
      else case burnFrom (destBridgeAddress w) msg_sender amount (wrappedToken w) of
        Inl e \<Rightarrow> Inl e
      | Inr t \<Rightarrow>
          Inr (w\<lparr>wrappedToken := t,
                 tokenBurned := tokenBurned w @ [(msg_sender, amount, destination)]\<rparr>))"

text \<open>
  A transaction sent to the chain: a reverted call leaves the world as it was and reports
  the reason.
\<close>

definition transact :: "(World \<Rightarrow> error + World) \<Rightarrow> World \<Rightarrow> World \<times> error option" where
  "transact call w = (case call w of Inl e \<Rightarrow> (w, Some e) | Inr w' \<Rightarrow> (w', None))"

section \<open>scripts/relayer.ts\<close>

text \<open>
  The deployment part of \<open>main\<close>: the first signer deploys the two tokens and the two
  bridges, the bridges are given the address of the second signer as relayer, and the
  ownership of the wrapped token goes to the destination bridge. The addresses the chain
  assigns to the two bridges are parameters.
\<close>

definition BridgeSourceChain_constructor :: "address \<Rightarrow> address \<Rightarrow> error + BridgeSourceChain" where
  "BridgeSourceChain_constructor msg_sender relayerAddress =
     (if msg_sender = 0 then Inl (OwnableInvalidOwner 0)
      else Inr \<lparr>src_owner = msg_sender, src_relayer = relayerAddress\<rparr>)"

definition BridgeDestinationChain_constructor ::
  "address \<Rightarrow> address \<Rightarrow> error + BridgeDestinationChain" where
  "BridgeDestinationChain_constructor msg_sender relayerAddress =
     (if msg_sender = 0 then Inl (OwnableInvalidOwner 0)
      else Inr \<lparr>dst_owner = msg_sender, dst_relayer = relayerAddress\<rparr>)"

definition deploy :: "address \<Rightarrow> address \<Rightarrow> address \<Rightarrow> address \<Rightarrow> error + World" where
  "deploy ownr relayer sourceBridgeAddr destBridgeAddr =
     (case ERC20Mock_constructor ownr of Inl e \<Rightarrow> Inl e | Inr sourceTok \<Rightarrow>
     (case ERC20Mock_constructor ownr of Inl e \<Rightarrow> Inl e | Inr wrappedTok \<Rightarrow>
     (case BridgeSourceChain_constructor ownr relayer of Inl e \<Rightarrow> Inl e | Inr srcBridge \<Rightarrow>
     (case BridgeDestinationChain_constructor ownr relayer of Inl e \<Rightarrow> Inl e | Inr dstBridge \<Rightarrow>
     (case transferOwnership ownr destBridgeAddr wrappedTok of Inl e \<Rightarrow> Inl e | Inr wrappedTok' \<Rightarrow>
        Inr \<lparr>sourceToken = sourceTok, wrappedToken = wrappedTok',
             sourceBridge = srcBridge, destBridge = dstBridge,
             sourceBridgeAddress = sourceBridgeAddr, destBridgeAddress = destBridgeAddr,
             tokenLocked = [], tokenBurned = []\<rparr>)))))"

text \<open>
  What a listener receives: the decoded arguments of the event and the position of its log
  entry on the chain. The listeners read \<open>args\<close> only.
\<close>

record EventPayload =
  args :: event_args
  blockNumber :: nat
  transactionHash :: "256 word"
  logIndex :: nat

text \<open>
  The lines the listeners print, in the order of the \<open>console\<close> calls (the amount is
  kept as the number it is, not formatted with 18 decimals).
\<close>

datatype console =
    Rule
  | DetectedTokenLocked
  | DetectedTokenBurned
  | User address
  | Amount uint256
  | Destination address
  | CallingMintWrapped
  | MintWrappedSuccessful
  | ErrorCallingMintWrapped error
  | CallingRelease
  | ReleaseSuccessful
  | ErrorCallingRelease error

text \<open>
  The listener of \<open>TokenLocked\<close>: one call of \<open>mintWrapped(destination, amount)\<close> signed by
  the relayer, inside \<open>try\<close>/\<open>catch\<close>; a failure is printed and nothing else happens.
\<close>

definition onTokenLocked :: "address \<Rightarrow> EventPayload \<Rightarrow> World \<Rightarrow> World \<times> console list" where
  "onTokenLocked relayer event w =
     (case args event of (user, amount, destination) \<Rightarrow>
        (let out = [Rule, DetectedTokenLocked, User user, Amount amount,
                    Destination destination, CallingMintWrapped]
         in case mintWrapped relayer destination amount w of
              Inr w' \<Rightarrow> (w', out @ [MintWrappedSuccessful, Rule])
            | Inl e \<Rightarrow> (w, out @ [ErrorCallingMintWrapped e, Rule])))"

text \<open>The listener of \<open>TokenBurned\<close>: one call of \<open>release(destination, amount)\<close>.\<close>

definition onTokenBurned :: "address \<Rightarrow> EventPayload \<Rightarrow> World \<Rightarrow> World \<times> console list" where
  "onTokenBurned relayer event w =
     (case args event of (user, amount, destination) \<Rightarrow>
        (let out = [Rule, DetectedTokenBurned, User user, Amount amount,
                    Destination destination, CallingRelease]
         in case release relayer destination amount w of
              Inr w' \<Rightarrow> (w', out @ [ReleaseSuccessful, Rule])
            | Inl e \<Rightarrow> (w, out @ [ErrorCallingRelease e, Rule])))"

text \<open>
  The script after \<open>Listening for events...\<close>: every event the two subscriptions deliver
  is given to its listener, one after the other.
\<close>

datatype delivery = TokenLockedEvent EventPayload | TokenBurnedEvent EventPayload

fun listen :: "address \<Rightarrow> delivery list \<Rightarrow> World \<Rightarrow> World \<times> console list" where
  "listen relayer [] w = (w, [])"
| "listen relayer (TokenLockedEvent event # ds) w =
     (case onTokenLocked relayer event w of (w', out) \<Rightarrow>
        (case listen relayer ds w' of (w'', out') \<Rightarrow> (w'', out @ out')))"
| "listen relayer (TokenBurnedEvent event # ds) w =
     (case onTokenBurned relayer event w of (w', out) \<Rightarrow>
        (case listen relayer ds w' of (w'', out') \<Rightarrow> (w'', out @ out')))"

text \<open>Counting, in the output, the calls submitted and the calls that went through.\<close>

definition submitted :: "console list \<Rightarrow> nat" where
  "submitted out = length (filter (\<lambda>l. l = CallingMintWrapped \<or> l = CallingRelease) out)"

definition successful :: "console list \<Rightarrow> nat" where
  "successful out = length (filter (\<lambda>l. l = MintWrappedSuccessful \<or> l = ReleaseSuccessful) out)"

definition failures :: "console list \<Rightarrow> nat" where
  "failures out =
     length (filter (\<lambda>l. case l of ErrorCallingMintWrapped _ \<Rightarrow> True
                               | ErrorCallingRelease _ \<Rightarrow> True | _ \<Rightarrow> False) out)"

section \<open>Runs of the whole system\<close>

text \<open>
  A token is well formed when its balances add up to its total supply; this is what makes
  the unchecked arithmetic of \<open>ERC20._update\<close> safe.
\<close>

definition total :: "(address \<Rightarrow> uint256) \<Rightarrow> nat" where
  "total f = (\<Sum>a\<in>UNIV. unat (f a))"

definition sumBalances :: "ERC20Mock \<Rightarrow> nat" where
  "sumBalances t = total (balances t)"

definition supply_accounted :: "ERC20Mock \<Rightarrow> bool" where
  "supply_accounted t = (sumBalances t = unat (totalSupply t))"

text \<open>Calls made to the two tokens directly, as transactions on the world.\<close>

definition onSourceToken :: "(ERC20Mock \<Rightarrow> error + ERC20Mock) \<Rightarrow> World \<Rightarrow> error + World" where
  "onSourceToken call w =
     (case call (sourceToken w) of Inl e \<Rightarrow> Inl e | Inr t \<Rightarrow> Inr (w\<lparr>sourceToken := t\<rparr>))"

definition onWrappedToken :: "(ERC20Mock \<Rightarrow> error + ERC20Mock) \<Rightarrow> World \<Rightarrow> error + World" where
  "onWrappedToken call w =
     (case call (wrappedToken w) of Inl e \<Rightarrow> Inl e | Inr t \<Rightarrow> Inr (w\<lparr>wrappedToken := t\<rparr>))"

text \<open>
  The state of a run: the chain, and the events emitted by the bridges that the
  subscriptions have not delivered to the relayer yet.
\<close>

record System =
  world :: World
  pendingLocked :: "event_args list"
  pendingBurned :: "event_args list"

text \<open>
  What can happen in a run. The first group are transactions sent by accounts: the two
  user entry points of the bridges, approvals and transfers of the two tokens, and calls
  of the relayer-only and owner-only entry points. The last two are the relayer script
  reacting to an event that is delivered to it.
\<close>

datatype action =
    Lock address uint256 address
  | Burn address uint256 address
  | ApproveSource address address uint256
  | ApproveWrapped address address uint256
  | TransferSource address address uint256
  | TransferWrapped address address uint256
  | CallMintWrapped address address uint256
  | CallRelease address address uint256
  | SetRelayerSource address address
  | SetRelayerDest address address
  | DeliverLocked EventPayload
  | DeliverBurned EventPayload

text \<open>An account that sends transactions is not one of the two bridge contracts.\<close>

definition account :: "World \<Rightarrow> address \<Rightarrow> bool" where
  "account w c = (c \<noteq> sourceBridgeAddress w \<and> c \<noteq> destBridgeAddress w)"

definition sent :: "(World \<Rightarrow> error + World) \<Rightarrow> System \<Rightarrow> System" where
  "sent call s =
     (let w = world s; w' = fst (transact call w) in
      s\<lparr>world := w',
        pendingLocked := pendingLocked s @ drop (length (tokenLocked w)) (tokenLocked w'),
        pendingBurned := pendingBurned s @ drop (length (tokenBurned w)) (tokenBurned w')\<rparr>)"

text \<open>
  One step of a run; \<open>None\<close> when the action is not part of the runs considered: a
  transaction sent by a bridge contract, a direct call of \<open>mintWrapped\<close> or \<open>release\<close> by
  the configured relayer (the relayer acts through the script only), or the delivery of
  an event that is not pending (never emitted, or delivered before).
\<close>

fun step :: "address \<Rightarrow> action \<Rightarrow> System \<Rightarrow> System option" where
  "step relayer (Lock c amount destination) s =
     (if account (world s) c then Some (sent (lock c amount destination) s) else None)"
| "step relayer (Burn c amount destination) s =
     (if account (world s) c then Some (sent (burn c amount destination) s) else None)"
| "step relayer (ApproveSource c spender val) s =
     (if account (world s) c then Some (sent (onSourceToken (approve c spender val)) s) else None)"
| "step relayer (ApproveWrapped c spender val) s =
     (if account (world s) c then Some (sent (onWrappedToken (approve c spender val)) s) else None)"
| "step relayer (TransferSource c to val) s =
     (if account (world s) c then Some (sent (onSourceToken (transfer c to val)) s) else None)"
| "step relayer (TransferWrapped c to val) s =
     (if account (world s) c then Some (sent (onWrappedToken (transfer c to val)) s) else None)"
| "step relayer (CallMintWrapped c user amount) s =
     (if account (world s) c \<and> c \<noteq> dst_relayer (destBridge (world s))
      then Some (sent (mintWrapped c user amount) s) else None)"
| "step relayer (CallRelease c user amount) s =
     (if account (world s) c \<and> c \<noteq> src_relayer (sourceBridge (world s))
      then Some (sent (release c user amount) s) else None)"
| "step relayer (SetRelayerSource c newRelayer) s =
     (if account (world s) c then Some (sent (BridgeSource_setRelayer c newRelayer) s) else None)"
| "step relayer (SetRelayerDest c newRelayer) s =
     (if account (world s) c then Some (sent (BridgeDest_setRelayer c newRelayer) s) else None)"
| "step relayer (DeliverLocked event) s =
     (if args event \<in> set (pendingLocked s)
      then Some (s\<lparr>world := fst (onTokenLocked relayer event (world s)),
                   pendingLocked := remove1 (args event) (pendingLocked s)\<rparr>)
      else None)"
| "step relayer (DeliverBurned event) s =
     (if args event \<in> set (pendingBurned s)
      then Some (s\<lparr>world := fst (onTokenBurned relayer event (world s)),
                   pendingBurned := remove1 (args event) (pendingBurned s)\<rparr>)
      else None)"

fun run :: "address \<Rightarrow> action list \<Rightarrow> System \<Rightarrow> System option" where
  "run relayer [] s = Some s"
| "run relayer (a # as) s =
     (case step relayer a s of None \<Rightarrow> None | Some s' \<Rightarrow> run relayer as s')"

text \<open>A state in which nothing has been bridged yet, and the property of conservation.\<close>

definition nothing_bridged :: "System \<Rightarrow> bool" where
  "nothing_bridged s =
     (supply_accounted (sourceToken (world s)) \<and> supply_accounted (wrappedToken (world s)) \<and>
      totalSupply (wrappedToken (world s)) = 0 \<and>
      pendingLocked s = [] \<and> pendingBurned s = [])"

definition minted :: "World \<Rightarrow> nat" where
  "minted w = unat (totalSupply (wrappedToken w))"

definition locked :: "World \<Rightarrow> nat" where
  "locked w = unat (balances (sourceToken w) (sourceBridgeAddress w))"

text \<open>
  The amounts of the events that are still to be delivered, and the invariant of the runs:
  both tokens are well formed, and what is minted, together with what the pending events
  will mint or release, is covered by what the source bridge holds.
\<close>

definition owed :: "event_args list \<Rightarrow> nat" where
  "owed es = sum_list (map (\<lambda>e. unat (fst (snd e))) es)"

definition covered :: "System \<Rightarrow> bool" where
  "covered s =
     (supply_accounted (sourceToken (world s)) \<and> supply_accounted (wrappedToken (world s)) \<and>
      minted (world s) + owed (pendingLocked s) + owed (pendingBurned s) \<le> locked (world s))"

text \<open>
  The bridges as \<open>scripts/relayer.ts\<close> leaves them: the signer of the script is the
  relayer of both bridges and the destination bridge owns the wrapped token.
\<close>

definition wired :: "address \<Rightarrow> World \<Rightarrow> bool" where
  "wired relayer w =
     (src_relayer (sourceBridge w) = relayer \<and> dst_relayer (destBridge w) = relayer \<and>
      tok_owner (wrappedToken w) = destBridgeAddress w)"

text \<open>
  The number of blocks on top of the block of an event when the chain head is \<open>head\<close>.
\<close>

definition confirmations :: "nat \<Rightarrow> EventPayload \<Rightarrow> nat" where
  "confirmations head event = head - blockNumber event"

section \<open>Example states\<close>

text \<open>
  The world \<open>scripts/relayer.ts\<close> deploys when the signers are the accounts 1 (owner),
  2 (relayer) and 3 (user) and the bridges get the addresses 18 and 19; an event as a
  subscription delivers it; the world once account 3 has 100 source tokens and has approved
  the source bridge for them, and after it locked them; that world with another relayer
  configured on the destination bridge; and the world once the 100 tokens are locked and
  account 3 holds 100 wrapped tokens.
\<close>

definition deployed :: World where
  "deployed =
     \<lparr>sourceToken = \<lparr>balances = (\<lambda>_. 0), allowances = (\<lambda>_ _. 0), totalSupply = 0, tok_owner = 1\<rparr>,
      wrappedToken = \<lparr>balances = (\<lambda>_. 0), allowances = (\<lambda>_ _. 0), totalSupply = 0, tok_owner = 19\<rparr>,
      sourceBridge = \<lparr>src_owner = 1, src_relayer = 2\<rparr>,
      destBridge = \<lparr>dst_owner = 1, dst_relayer = 2\<rparr>,
      sourceBridgeAddress = 18, destBridgeAddress = 19,
      tokenLocked = [], tokenBurned = []\<rparr>"

definition eventAt :: "nat \<Rightarrow> event_args \<Rightarrow> EventPayload" where
  "eventAt b a = \<lparr>args = a, blockNumber = b, transactionHash = 0, logIndex = 0\<rparr>"

definition funded :: World where
  "funded = deployed\<lparr>sourceToken :=
      \<lparr>balances = (\<lambda>_. 0)(3 := 100), allowances = (\<lambda>_ _. 0)(3 := (\<lambda>_. 0)(18 := 100)),
       totalSupply = 100, tok_owner = 1\<rparr>\<rparr>"

definition afterLock :: World where
  "afterLock = deployed\<lparr>sourceToken :=
      \<lparr>balances = (\<lambda>_. 0)(3 := 0, 18 := 100), allowances = (\<lambda>_ _. 0)(3 := (\<lambda>_. 0)(18 := 0)),
       totalSupply = 100, tok_owner = 1\<rparr>,
      tokenLocked := [(3, 100, 3)]\<rparr>"

definition miswired :: World where
  "miswired = afterLock\<lparr>destBridge := \<lparr>dst_owner = 1, dst_relayer = 9\<rparr>\<rparr>"

definition holding :: World where
  "holding = deployed
     \<lparr>sourceToken :=
        \<lparr>balances = (\<lambda>_. 0)(18 := 100), allowances = (\<lambda>_ _. 0), totalSupply = 100, tok_owner = 1\<rparr>,
      wrappedToken :=
        \<lparr>balances = (\<lambda>_. 0)(3 := 100), allowances = (\<lambda>_ _. 0), totalSupply = 100, tok_owner = 19\<rparr>\<rparr>"

text \<open>The start of a run: account 3 is funded and nothing is bridged or pending.\<close>

definition start :: System where
  "start = \<lparr>world = funded, pendingLocked = [], pendingBurned = []\<rparr>"

section \<open>Where the example states come from\<close>

lemma deploy_deployed: "deploy 1 2 18 19 = Inr deployed"
  by (simp add: deploy_def ERC20Mock_constructor_def BridgeSourceChain_constructor_def
      BridgeDestinationChain_constructor_def transferOwnership_def checkOwner_def deployed_def)

lemma funded_lock: "lock 3 100 3 funded = Inr afterLock"
  by (simp add: lock_def funded_def afterLock_def deployed_def transferFrom_def spendAllowance_def
     erc20_approve_def erc20_transfer_def erc20_update_def Let_def)

section \<open>Access control and argument checks of the bridges\<close>

text \<open>
  C3. A call of \<open>release\<close> or \<open>mintWrapped\<close> by anyone but the configured relayer of that
  bridge reverts and leaves the world as it was, and so does a call of \<open>setRelayer\<close> by
  anyone but the owner of that bridge: these calls can only succeed for the relayer and
  the owner.
\<close>

theorem only_relayer_only_owner:
  "(c \<noteq> src_relayer (sourceBridge w) \<longrightarrow>
      transact (release c user amount) w =
        (w, Some (Error ''BridgeSource: Caller is not the relayer''))) \<and>
   (c \<noteq> dst_relayer (destBridge w) \<longrightarrow>
      transact (mintWrapped c user amount) w =
        (w, Some (Error ''BridgeDest: Caller is not the relayer''))) \<and>
   (c \<noteq> src_owner (sourceBridge w) \<longrightarrow>
      transact (BridgeSource_setRelayer c newRelayer) w = (w, Some (OwnableUnauthorizedAccount c))) \<and>
   (c \<noteq> dst_owner (destBridge w) \<longrightarrow>
      transact (BridgeDest_setRelayer c newRelayer) w = (w, Some (OwnableUnauthorizedAccount c)))"
  by (simp add: transact_def release_def mintWrapped_def BridgeSource_setRelayer_def
      BridgeDest_setRelayer_def checkOwner_def)

theorem only_relayer_only_owner_witness:
  "(3 \<noteq> src_relayer (sourceBridge deployed) \<and>
      transact (release 3 3 100) deployed =
        (deployed, Some (Error ''BridgeSource: Caller is not the relayer''))) \<and>
   (3 \<noteq> dst_relayer (destBridge deployed) \<and>
      transact (mintWrapped 3 3 100) deployed =
        (deployed, Some (Error ''BridgeDest: Caller is not the relayer''))) \<and>
   (3 \<noteq> src_owner (sourceBridge deployed) \<and>
      transact (BridgeSource_setRelayer 3 3) deployed = (deployed, Some (OwnableUnauthorizedAccount 3))) \<and>
   (3 \<noteq> dst_owner (destBridge deployed) \<and>
      transact (BridgeDest_setRelayer 3 3) deployed = (deployed, Some (OwnableUnauthorizedAccount 3)))"
  using only_relayer_only_owner [of 3 deployed 3 100 3]
  by (simp add: deployed_def)

text \<open>
  C9. Whoever the caller is, \<open>lock\<close>, \<open>burn\<close>, \<open>release\<close> and \<open>mintWrapped\<close> revert when the
  amount is 0, and the world (so every balance) is as before. For the two relayer-only
  entry points the revert is that of \<open>onlyRelayer\<close> when the caller is not the relayer.
\<close>

theorem zero_amount_reverts:
  "transact (lock c 0 destination) w =
     (w, Some (Error ''BridgeSource: Amount must be greater than 0'')) \<and>
   transact (burn c 0 destination) w =
     (w, Some (Error ''BridgeDest: Amount must be greater than 0'')) \<and>
   transact (release c user 0) w =
     (w, Some (Error (if c = src_relayer (sourceBridge w)
                      then ''BridgeSource: Amount must be greater than 0''
                      else ''BridgeSource: Caller is not the relayer''))) \<and>
   transact (mintWrapped c user 0) w =
     (w, Some (Error (if c = dst_relayer (destBridge w)
                      then ''BridgeDest: Amount must be greater than 0''
                      else ''BridgeDest: Caller is not the relayer'')))"
  by (simp add: transact_def lock_def burn_def release_def mintWrapped_def)

section \<open>Burning without an allowance\<close>

lemma burnFrom_owner:
  "from \<noteq> 0 \<Longrightarrow>
   burnFrom (tok_owner t) from amount t =
     (if balances t from < amount
      then Inl (ERC20InsufficientBalance from (balances t from) amount)
      else Inr (t\<lparr>balances := (balances t)(from := balances t from - amount),
                 totalSupply := totalSupply t - amount\<rparr>))"
  by (simp add: burnFrom_def checkOwner_def erc20_burn_def erc20_update_def Let_def)

text \<open>
  C10. Called by the owner of the token for a holder other than the zero address,
  \<open>burnFrom\<close> reverts exactly when the balance of the holder is below the amount, and
  otherwise takes the amount from that balance and from the total supply; the allowances
  are neither read nor changed. So \<open>burn\<close> on the destination bridge, which owns the
  wrapped token, goes through for any caller that holds the (positive) amount, whatever
  allowance the caller gave the bridge.
\<close>

theorem burnFrom_ignores_allowance:
  "(from \<noteq> 0 \<longrightarrow>
      burnFrom (tok_owner t) from amount t =
        (if balances t from < amount
         then Inl (ERC20InsufficientBalance from (balances t from) amount)
         else Inr (t\<lparr>balances := (balances t)(from := balances t from - amount),
                    totalSupply := totalSupply t - amount\<rparr>))) \<and>
   (c \<noteq> 0 \<and> 0 < val \<and> val \<le> balances (wrappedToken w) c \<and>
    tok_owner (wrappedToken w) = destBridgeAddress w \<longrightarrow>
      burn c val destination w =
        Inr (w\<lparr>wrappedToken := (wrappedToken w)
                  \<lparr>balances := (balances (wrappedToken w))(c := balances (wrappedToken w) c - val),
                   totalSupply := totalSupply (wrappedToken w) - val\<rparr>,
               tokenBurned := tokenBurned w @ [(c, val, destination)]\<rparr>))"
proof (intro conjI impI)
  assume "from \<noteq> 0"
  then show "burnFrom (tok_owner t) from amount t =
        (if balances t from < amount
         then Inl (ERC20InsufficientBalance from (balances t from) amount)
         else Inr (t\<lparr>balances := (balances t)(from := balances t from - amount),
                    totalSupply := totalSupply t - amount\<rparr>))"
    by (rule burnFrom_owner)
next
  assume h: "c \<noteq> 0 \<and> 0 < val \<and> val \<le> balances (wrappedToken w) c \<and>
    tok_owner (wrappedToken w) = destBridgeAddress w"
  then have "burnFrom (destBridgeAddress w) c val (wrappedToken w) =
     Inr ((wrappedToken w)\<lparr>balances := (balances (wrappedToken w))(c := balances (wrappedToken w) c - val),
                   totalSupply := totalSupply (wrappedToken w) - val\<rparr>)"
    using burnFrom_owner [of c "wrappedToken w" val] by (simp add: not_less [symmetric])
  with h show "burn c val destination w =
        Inr (w\<lparr>wrappedToken := (wrappedToken w)
                  \<lparr>balances := (balances (wrappedToken w))(c := balances (wrappedToken w) c - val),
                   totalSupply := totalSupply (wrappedToken w) - val\<rparr>,
               tokenBurned := tokenBurned w @ [(c, val, destination)]\<rparr>)"
    by (simp add: burn_def)
qed

theorem burnFrom_ignores_allowance_witness:
  "((3::address) \<noteq> 0 \<and>
      burnFrom (tok_owner (wrappedToken holding)) 3 100 (wrappedToken holding) =
        Inr \<lparr>balances = (\<lambda>_. 0)(3 := 0), allowances = (\<lambda>_ _. 0), totalSupply = 0, tok_owner = 19\<rparr>) \<and>
   ((3::address) \<noteq> 0 \<and> (0::uint256) < 100 \<and> 100 \<le> balances (wrappedToken holding) 3 \<and>
    tok_owner (wrappedToken holding) = destBridgeAddress holding \<and>
    allowances (wrappedToken holding) 3 (destBridgeAddress holding) = 0 \<and>
    burn 3 100 3 holding =
        Inr (holding\<lparr>wrappedToken :=
               \<lparr>balances = (\<lambda>_. 0)(3 := 0), allowances = (\<lambda>_ _. 0), totalSupply = 0, tok_owner = 19\<rparr>,
               tokenBurned := [(3, 100, 3)]\<rparr>))"
  using burnFrom_ignores_allowance [of 3 "wrappedToken holding" 100 3 100 holding 3]
  by (simp add: holding_def deployed_def)

section \<open>The relayer script\<close>

lemma mintWrapped_Inr_iff:
  "mintWrapped c u a w = Inr w' \<longleftrightarrow>
     c = dst_relayer (destBridge w) \<and> 0 < a \<and> tok_owner (wrappedToken w) = destBridgeAddress w \<and>
     u \<noteq> 0 \<and> unat (totalSupply (wrappedToken w)) + unat a < 2 ^ 256 \<and>
     w' = w\<lparr>wrappedToken := (wrappedToken w)
              \<lparr>totalSupply := totalSupply (wrappedToken w) + a,
               balances := (balances (wrappedToken w))(u := balances (wrappedToken w) u + a)\<rparr>\<rparr>"
  by (auto simp add: mintWrapped_def mint_def checkOwner_def erc20_mint_def erc20_update_def)

lemma release_Inr_iff:
  "release c u a w = Inr w' \<longleftrightarrow>
     c = src_relayer (sourceBridge w) \<and> 0 < a \<and> sourceBridgeAddress w \<noteq> 0 \<and> u \<noteq> 0 \<and>
     a \<le> balances (sourceToken w) (sourceBridgeAddress w) \<and>
     w' = w\<lparr>sourceToken := (sourceToken w)
              \<lparr>balances :=
                 ((balances (sourceToken w))
                    (sourceBridgeAddress w := balances (sourceToken w) (sourceBridgeAddress w) - a))
                    (u := ((balances (sourceToken w))
                            (sourceBridgeAddress w :=
                               balances (sourceToken w) (sourceBridgeAddress w) - a)) u + a)\<rparr>\<rparr>"
  by (auto simp add: release_def transfer_def erc20_transfer_def erc20_update_def Let_def not_less word_gt_0)

lemma onTokenLocked_transact:
  "args event = (user, amount, destination) \<Longrightarrow>
   fst (onTokenLocked relayer event w) = fst (transact (mintWrapped relayer destination amount) w)"
  by (simp add: onTokenLocked_def transact_def Let_def split: sum.splits)

lemma onTokenBurned_transact:
  "args event = (user, amount, destination) \<Longrightarrow>
   fst (onTokenBurned relayer event w) = fst (transact (release relayer destination amount) w)"
  by (simp add: onTokenBurned_def transact_def Let_def split: sum.splits)


lemma onTokenLocked_out:
  "args event = (user, amount, destination) \<Longrightarrow>
   snd (onTokenLocked relayer event w) =
     [Rule, DetectedTokenLocked, User user, Amount amount, Destination destination,
      CallingMintWrapped,
      (case mintWrapped relayer destination amount w of
         Inr _ \<Rightarrow> MintWrappedSuccessful | Inl e \<Rightarrow> ErrorCallingMintWrapped e),
      Rule]"
  by (simp add: onTokenLocked_def Let_def split: sum.splits)

lemma onTokenBurned_out:
  "args event = (user, amount, destination) \<Longrightarrow>
   snd (onTokenBurned relayer event w) =
     [Rule, DetectedTokenBurned, User user, Amount amount, Destination destination,
      CallingRelease,
      (case release relayer destination amount w of
         Inr _ \<Rightarrow> ReleaseSuccessful | Inl e \<Rightarrow> ErrorCallingRelease e),
      Rule]"
  by (simp add: onTokenBurned_def Let_def split: sum.splits)

lemma submitted_append: "submitted (xs @ ys) = submitted xs + submitted ys"
  by (simp add: submitted_def)

lemma successful_append: "successful (xs @ ys) = successful xs + successful ys"
  by (simp add: successful_def)

lemma failures_append: "failures (xs @ ys) = failures xs + failures ys"
  by (simp add: failures_def)

lemma onTokenLocked_counts:
  "submitted (snd (onTokenLocked relayer event w)) = 1 \<and>
   successful (snd (onTokenLocked relayer event w)) + failures (snd (onTokenLocked relayer event w)) = 1"
  by (cases "args event")
     (simp add: onTokenLocked_out submitted_def successful_def failures_def split: sum.splits)

lemma onTokenBurned_counts:
  "submitted (snd (onTokenBurned relayer event w)) = 1 \<and>
   successful (snd (onTokenBurned relayer event w)) + failures (snd (onTokenBurned relayer event w)) = 1"
  by (cases "args event")
     (simp add: onTokenBurned_out submitted_def successful_def failures_def split: sum.splits)

lemma onTokenLocked_world:
  "fst (onTokenLocked relayer event w) =
     fst (transact (mintWrapped relayer (snd (snd (args event))) (fst (snd (args event)))) w)"
  by (cases "args event") (simp add: onTokenLocked_transact)

lemma onTokenBurned_world:
  "fst (onTokenBurned relayer event w) =
     fst (transact (release relayer (snd (snd (args event))) (fst (snd (args event)))) w)"
  by (cases "args event") (simp add: onTokenBurned_transact)

lemma onTokenLocked_successful:
  "successful (snd (onTokenLocked relayer event w)) =
     (case mintWrapped relayer (snd (snd (args event))) (fst (snd (args event))) w of
        Inr _ \<Rightarrow> 1 | Inl _ \<Rightarrow> 0)"
  by (cases "args event") (simp add: onTokenLocked_out successful_def split: sum.splits)

lemma onTokenBurned_successful:
  "successful (snd (onTokenBurned relayer event w)) =
     (case release relayer (snd (snd (args event))) (fst (snd (args event))) w of
        Inr _ \<Rightarrow> 1 | Inl _ \<Rightarrow> 0)"
  by (cases "args event") (simp add: onTokenBurned_out successful_def split: sum.splits)

lemma listen_world:
  "fst (listen relayer ds w) =
     fold (\<lambda>d w. case d of
             TokenLockedEvent event \<Rightarrow>
               fst (transact (mintWrapped relayer (snd (snd (args event)))
                                (fst (snd (args event)))) w)
           | TokenBurnedEvent event \<Rightarrow>
               fst (transact (release relayer (snd (snd (args event)))
                                (fst (snd (args event)))) w)) ds w"
proof (induction ds arbitrary: w)
  case Nil
  show ?case by simp
next
  case (Cons d ds)
  show ?case
  proof (cases d)
    case (TokenLockedEvent event)
    have "fst (listen relayer (d # ds) w) =
        fst (listen relayer ds (fst (onTokenLocked relayer event w)))"
      using TokenLockedEvent by (simp split: prod.splits)
    then show ?thesis
      using TokenLockedEvent by (simp add: Cons.IH onTokenLocked_world)
  next
    case (TokenBurnedEvent event)
    have "fst (listen relayer (d # ds) w) =
        fst (listen relayer ds (fst (onTokenBurned relayer event w)))"
      using TokenBurnedEvent by (simp split: prod.splits)
    then show ?thesis
      using TokenBurnedEvent by (simp add: Cons.IH onTokenBurned_world)
  qed
qed

lemma listen_counts:
  "submitted (snd (listen relayer ds w)) = length ds \<and>
   successful (snd (listen relayer ds w)) + failures (snd (listen relayer ds w)) = length ds"
proof (induction ds arbitrary: w)
  case Nil
  show ?case by (simp add: submitted_def successful_def failures_def)
next
  case (Cons d ds)
  show ?case
  proof (cases d)
    case (TokenLockedEvent event)
    obtain w' out where h: "onTokenLocked relayer event w = (w', out)"
      by (cases "onTokenLocked relayer event w")
    obtain w'' out' where r: "listen relayer ds w' = (w'', out')"
      by (cases "listen relayer ds w'")
    from onTokenLocked_counts [of relayer event w] Cons.IH [of w'] h r TokenLockedEvent
    show ?thesis by (simp add: submitted_append successful_append failures_append)
  next
    case (TokenBurnedEvent event)
    obtain w' out where h: "onTokenBurned relayer event w = (w', out)"
      by (cases "onTokenBurned relayer event w")
    obtain w'' out' where r: "listen relayer ds w' = (w'', out')"
      by (cases "listen relayer ds w'")
    from onTokenBurned_counts [of relayer event w] Cons.IH [of w'] h r TokenBurnedEvent
    show ?thesis by (simp add: submitted_append successful_append failures_append)
  qed
qed

text \<open>
  C1 (as amended). The relayer keeps no record of the events it has handled. The world
  after a list of deliveries is the world after sending, for each delivery in turn, one
  transaction: \<open>mintWrapped(destination, amount)\<close> for a \<open>TokenLocked\<close> event and
  \<open>release(destination, amount)\<close> for a \<open>TokenBurned\<close> event, whether the event was
  delivered before or not. A listener prints success exactly when its call went through,
  and the output has one submitted call, gone through or failed, for each delivery. So
  an event delivered \<open>n\<close> times is acted on \<open>n\<close> times.
\<close>

theorem one_call_per_delivery:
  "fst (listen relayer ds w) =
     fold (\<lambda>d w. case d of
             TokenLockedEvent event \<Rightarrow>
               fst (transact (mintWrapped relayer (snd (snd (args event)))
                                (fst (snd (args event)))) w)
           | TokenBurnedEvent event \<Rightarrow>
               fst (transact (release relayer (snd (snd (args event)))
                                (fst (snd (args event)))) w)) ds w \<and>
   successful (snd (onTokenLocked relayer event w)) =
     (case mintWrapped relayer (snd (snd (args event))) (fst (snd (args event))) w of
        Inr _ \<Rightarrow> 1 | Inl _ \<Rightarrow> 0) \<and>
   successful (snd (onTokenBurned relayer event w)) =
     (case release relayer (snd (snd (args event))) (fst (snd (args event))) w of
        Inr _ \<Rightarrow> 1 | Inl _ \<Rightarrow> 0) \<and>
   submitted (snd (listen relayer ds w)) = length ds \<and>
   successful (snd (listen relayer ds w)) + failures (snd (listen relayer ds w)) = length ds"
  using listen_world [of relayer ds w] listen_counts [of relayer ds w]
    onTokenLocked_successful [of relayer event w] onTokenBurned_successful [of relayer event w]
  by (intro conjI) simp_all

lemmas eval_defs = onTokenLocked_def onTokenBurned_def mintWrapped_def release_def mint_def checkOwner_def
  erc20_mint_def erc20_update_def transfer_def erc20_transfer_def Let_def eventAt_def transact_def

text \<open>
  The same \<open>TokenLocked\<close> event (one lock of 100 by account 3) delivered twice: two calls
  of \<open>mintWrapped\<close> go through and account 3 holds 200 wrapped tokens.
\<close>

theorem redelivery_counterexample:
  "successful (snd (listen 2 [TokenLockedEvent (eventAt 1 (3, 100, 3)),
                              TokenLockedEvent (eventAt 1 (3, 100, 3))] afterLock)) = 2 \<and>
   balances (wrappedToken (fst (listen 2 [TokenLockedEvent (eventAt 1 (3, 100, 3)),
                              TokenLockedEvent (eventAt 1 (3, 100, 3))] afterLock))) 3 = 200 \<and>
   tokenLocked afterLock = [(3, 100, 3)]"
  by (simp add: eval_defs afterLock_def deployed_def successful_def)


text \<open>
  C4 (as amended). For an event with arguments (user, amount, destination) the relayer
  submits \<open>mintWrapped(destination, amount)\<close>, or \<open>release(destination, amount)\<close> for a
  \<open>TokenBurned\<close> event: when the call goes through, the amount is credited to the
  destination of the event, which is the user only when the two fields are equal.
\<close>

theorem relayer_pays_destination:
  "args event = (user, amount, destination) \<longrightarrow>
     fst (onTokenLocked relayer event w) =
       fst (transact (mintWrapped relayer destination amount) w) \<and>
     fst (onTokenBurned relayer event w) =
       fst (transact (release relayer destination amount) w) \<and>
     (MintWrappedSuccessful \<in> set (snd (onTokenLocked relayer event w)) \<longrightarrow>
        balances (wrappedToken (fst (onTokenLocked relayer event w))) =
          (balances (wrappedToken w))
            (destination := balances (wrappedToken w) destination + amount)) \<and>
     (ReleaseSuccessful \<in> set (snd (onTokenBurned relayer event w)) \<longrightarrow>
        balances (sourceToken (fst (onTokenBurned relayer event w))) =
          ((balances (sourceToken w))
             (sourceBridgeAddress w := balances (sourceToken w) (sourceBridgeAddress w) - amount))
             (destination :=
                ((balances (sourceToken w))
                   (sourceBridgeAddress w :=
                      balances (sourceToken w) (sourceBridgeAddress w) - amount)) destination
                + amount))"
proof (intro impI conjI)
  assume a: "args event = (user, amount, destination)"
  show "fst (onTokenLocked relayer event w) =
       fst (transact (mintWrapped relayer destination amount) w)"
    using a by (rule onTokenLocked_transact)
  show "fst (onTokenBurned relayer event w) =
       fst (transact (release relayer destination amount) w)"
    using a by (rule onTokenBurned_transact)
next
  assume a: "args event = (user, amount, destination)"
    and m: "MintWrappedSuccessful \<in> set (snd (onTokenLocked relayer event w))"
  from a m obtain w' where w': "mintWrapped relayer destination amount w = Inr w'"
    by (cases "mintWrapped relayer destination amount w") (simp_all add: onTokenLocked_out)
  then have "fst (onTokenLocked relayer event w) = w'"
    using a by (simp add: onTokenLocked_transact transact_def)
  with w' show "balances (wrappedToken (fst (onTokenLocked relayer event w))) =
          (balances (wrappedToken w))
            (destination := balances (wrappedToken w) destination + amount)"
    by (simp add: mintWrapped_Inr_iff)
next
  assume a: "args event = (user, amount, destination)"
    and m: "ReleaseSuccessful \<in> set (snd (onTokenBurned relayer event w))"
  from a m obtain w' where w': "release relayer destination amount w = Inr w'"
    by (cases "release relayer destination amount w") (simp_all add: onTokenBurned_out)
  then have "fst (onTokenBurned relayer event w) = w'"
    using a by (simp add: onTokenBurned_transact transact_def)
  with w' show "balances (sourceToken (fst (onTokenBurned relayer event w))) =
          ((balances (sourceToken w))
             (sourceBridgeAddress w := balances (sourceToken w) (sourceBridgeAddress w) - amount))
             (destination :=
                ((balances (sourceToken w))
                   (sourceBridgeAddress w :=
                      balances (sourceToken w) (sourceBridgeAddress w) - amount)) destination
                + amount)"
    by (simp add: release_Inr_iff)
qed

theorem relayer_pays_destination_witness:
  "args (eventAt 1 (3, 100, 4)) = (3, 100, 4) \<and>
   MintWrappedSuccessful \<in> set (snd (onTokenLocked 2 (eventAt 1 (3, 100, 4)) holding)) \<and>
   ReleaseSuccessful \<in> set (snd (onTokenBurned 2 (eventAt 1 (3, 100, 4)) holding)) \<and>
   balances (wrappedToken (fst (onTokenLocked 2 (eventAt 1 (3, 100, 4)) holding))) =
     (\<lambda>_. 0)(3 := 100, 4 := 100) \<and>
   balances (sourceToken (fst (onTokenBurned 2 (eventAt 1 (3, 100, 4)) holding))) =
     (\<lambda>_. 0)(18 := 0, 4 := 100)"
  using relayer_pays_destination [of "eventAt 1 (3, 100, 4)" 3 100 4 2 holding]
  by (simp add: eval_defs holding_def deployed_def)

text \<open>
  A lock by account 3 with destination 4: the wrapped tokens go to account 4 and account 3
  gets nothing, where \<open>mintWrapped(user, amount)\<close> would have credited account 3.
\<close>

theorem mint_to_user_counterexample:
  "args (eventAt 1 (3, 100, 4)) = (3, 100, 4) \<and>
   snd (onTokenLocked 2 (eventAt 1 (3, 100, 4)) afterLock) =
     [Rule, DetectedTokenLocked, User 3, Amount 100, Destination 4, CallingMintWrapped,
      MintWrappedSuccessful, Rule] \<and>
   balances (wrappedToken (fst (onTokenLocked 2 (eventAt 1 (3, 100, 4)) afterLock))) 3 = 0 \<and>
   balances (wrappedToken (fst (onTokenLocked 2 (eventAt 1 (3, 100, 4)) afterLock))) 4 = 100 \<and>
   balances (wrappedToken (fst (transact (mintWrapped 2 3 100) afterLock))) 3 = 100"
  by (simp add: eval_defs afterLock_def deployed_def)

text \<open>
  C7 (as amended). When the call submitted for an event reverts, the relayer prints the
  error and goes on with the next delivery from the unchanged world: the call is
  submitted once and not again, and nothing about the event is kept.
\<close>

theorem failure_is_printed_once:
  "args event = (user, amount, destination) \<longrightarrow>
     (mintWrapped relayer destination amount w = Inl e \<longrightarrow>
        listen relayer (TokenLockedEvent event # ds) w =
          (fst (listen relayer ds w),
           [Rule, DetectedTokenLocked, User user, Amount amount, Destination destination,
            CallingMintWrapped, ErrorCallingMintWrapped e, Rule] @ snd (listen relayer ds w))) \<and>
     (release relayer destination amount w = Inl e' \<longrightarrow>
        listen relayer (TokenBurnedEvent event # ds) w =
          (fst (listen relayer ds w),
           [Rule, DetectedTokenBurned, User user, Amount amount, Destination destination,
            CallingRelease, ErrorCallingRelease e', Rule] @ snd (listen relayer ds w)))"
  by (simp add: onTokenLocked_def onTokenBurned_def Let_def split: prod.splits)

theorem failure_is_printed_once_witness:
  "args (eventAt 1 (3, 100, 3)) = (3, 100, 3) \<and>
   mintWrapped 5 3 100 afterLock = Inl (Error ''BridgeDest: Caller is not the relayer'') \<and>
   release 5 3 100 afterLock = Inl (Error ''BridgeSource: Caller is not the relayer'') \<and>
   listen 5 [TokenLockedEvent (eventAt 1 (3, 100, 3))] afterLock =
     (afterLock,
      [Rule, DetectedTokenLocked, User 3, Amount 100, Destination 3, CallingMintWrapped,
       ErrorCallingMintWrapped (Error ''BridgeDest: Caller is not the relayer''), Rule]) \<and>
   listen 5 [TokenBurnedEvent (eventAt 1 (3, 100, 3))] afterLock =
     (afterLock,
      [Rule, DetectedTokenBurned, User 3, Amount 100, Destination 3, CallingRelease,
       ErrorCallingRelease (Error ''BridgeSource: Caller is not the relayer''), Rule])"
  using failure_is_printed_once [of "eventAt 1 (3, 100, 3)" 3 100 3 5 afterLock
      "Error ''BridgeDest: Caller is not the relayer''" "[]"
      "Error ''BridgeSource: Caller is not the relayer''"]
  by (simp add: eventAt_def mintWrapped_def release_def afterLock_def deployed_def)

text \<open>
  The destination bridge has another relayer configured: the delivery of the lock of
  account 3 ends after one rejected call of \<open>mintWrapped\<close>, with the error printed.
\<close>

theorem no_retry_counterexample:
  "listen 2 [TokenLockedEvent (eventAt 1 (3, 100, 3))] miswired =
     (miswired,
      [Rule, DetectedTokenLocked, User 3, Amount 100, Destination 3, CallingMintWrapped,
       ErrorCallingMintWrapped (Error ''BridgeDest: Caller is not the relayer''), Rule]) \<and>
   submitted (snd (listen 2 [TokenLockedEvent (eventAt 1 (3, 100, 3))] miswired)) = 1"
  by (simp add: eval_defs miswired_def afterLock_def deployed_def submitted_def)

text \<open>
  C8 (as amended). The relayer submits its call as soon as an event is delivered: for
  every event, the world after the listener is the world after the transaction
  \<open>mintWrapped(destination, amount)\<close>, or \<open>release(destination, amount)\<close>, sent to the
  world the event was delivered in. What a listener does depends on the arguments of the
  event only, not on the block of the event, so no number of confirmations is waited for.
\<close>

theorem acts_on_delivery:
  "fst (onTokenLocked relayer event w) =
     fst (transact (mintWrapped relayer (snd (snd (args event))) (fst (snd (args event)))) w) \<and>
   fst (onTokenBurned relayer event w) =
     fst (transact (release relayer (snd (snd (args event))) (fst (snd (args event)))) w) \<and>
   submitted (snd (onTokenLocked relayer event w)) = 1 \<and>
   submitted (snd (onTokenBurned relayer event w)) = 1 \<and>
   (args event = args event' \<longrightarrow>
      onTokenLocked relayer event w = onTokenLocked relayer event' w \<and>
      onTokenBurned relayer event w = onTokenBurned relayer event' w)"
  using onTokenLocked_counts [of relayer event w] onTokenBurned_counts [of relayer event w]
    onTokenLocked_world [of relayer event w] onTokenBurned_world [of relayer event w]
  by (simp add: onTokenLocked_def onTokenBurned_def)

theorem acts_on_delivery_witness:
  "args (eventAt 7 (3, 100, 3)) = args (eventAt 2 (3, 100, 3)) \<and>
   blockNumber (eventAt 7 (3, 100, 3)) \<noteq> blockNumber (eventAt 2 (3, 100, 3)) \<and>
   onTokenLocked 2 (eventAt 7 (3, 100, 3)) afterLock = onTokenLocked 2 (eventAt 2 (3, 100, 3)) afterLock \<and>
   onTokenBurned 2 (eventAt 7 (3, 100, 3)) afterLock = onTokenBurned 2 (eventAt 2 (3, 100, 3)) afterLock \<and>
   fst (onTokenLocked 2 (eventAt 7 (3, 100, 3)) afterLock) =
     fst (transact (mintWrapped 2 3 100) afterLock) \<and>
   fst (onTokenBurned 2 (eventAt 7 (3, 100, 3)) afterLock) =
     fst (transact (release 2 3 100) afterLock)"
proof -
  note t = acts_on_delivery [of 2 "eventAt 7 (3, 100, 3)" afterLock "eventAt 2 (3, 100, 3)"]
  have a: "args (eventAt 7 (3, 100, 3)) = args (eventAt 2 (3, 100, 3))"
    and b: "blockNumber (eventAt 7 (3, 100, 3)) \<noteq> blockNumber (eventAt 2 (3, 100, 3))"
    and p: "snd (snd (args (eventAt 7 (3, 100, 3)))) = 3"
      "fst (snd (args (eventAt 7 (3, 100, 3)))) = 100"
    by (simp_all add: eventAt_def)
  from t have "fst (onTokenLocked 2 (eventAt 7 (3, 100, 3)) afterLock) =
      fst (transact (mintWrapped 2 (snd (snd (args (eventAt 7 (3, 100, 3)))))
        (fst (snd (args (eventAt 7 (3, 100, 3)))))) afterLock)"
    and "fst (onTokenBurned 2 (eventAt 7 (3, 100, 3)) afterLock) =
      fst (transact (release 2 (snd (snd (args (eventAt 7 (3, 100, 3)))))
        (fst (snd (args (eventAt 7 (3, 100, 3)))))) afterLock)"
    by blast+
  then have w: "fst (onTokenLocked 2 (eventAt 7 (3, 100, 3)) afterLock) =
      fst (transact (mintWrapped 2 3 100) afterLock)"
    "fst (onTokenBurned 2 (eventAt 7 (3, 100, 3)) afterLock) =
      fst (transact (release 2 3 100) afterLock)"
    unfolding p by blast+
  from t a b w show ?thesis by blast
qed

text \<open>
  An event of block 7 delivered while block 7 is the chain head has no confirmation, and
  the relayer mints for it.
\<close>

theorem confirmation_depth_counterexample:
  "confirmations 7 (eventAt 7 (3, 100, 3)) = 0 \<and>
   snd (onTokenLocked 2 (eventAt 7 (3, 100, 3)) afterLock) =
     [Rule, DetectedTokenLocked, User 3, Amount 100, Destination 3, CallingMintWrapped,
      MintWrappedSuccessful, Rule] \<and>
   balances (wrappedToken (fst (onTokenLocked 2 (eventAt 7 (3, 100, 3)) afterLock))) 3 = 100"
  by (simp add: eval_defs confirmations_def afterLock_def deployed_def)

section \<open>The balances of a token add up to its supply\<close>

lemma total_split: "total f = unat (f a) + (\<Sum>x\<in>UNIV - {a}. unat (f x))"
  unfolding total_def by (rule sum.remove) simp_all

lemma total_upd: "total (f(a := v)) + unat (f a) = total f + unat v"
proof -
  have "(\<Sum>x\<in>UNIV - {a}. unat ((f(a := v)) x)) = (\<Sum>x\<in>UNIV - {a}. unat (f x))"
    by (rule sum.cong) simp_all
  then show ?thesis
    using total_split [of "f(a := v)" a] total_split [of f a] by simp
qed

lemma le_total: "unat (f a) \<le> total f"
  using total_split [of f a] by simp

lemma two_le_total:
  assumes "a \<noteq> b"
  shows "unat (f a) + unat (f b) \<le> total f"
proof -
  have "unat (f b) \<le> total (f(a := 0))"
    using le_total [of "f(a := 0)" b] assms by simp
  then show ?thesis
    using total_upd [of f a 0] by simp
qed

lemma sumBalances_total: "sumBalances t = total (balances t)"
  by (simp add: sumBalances_def)

lemma unat_bound: "unat (x :: uint256) < 2 ^ 256"
  using unsigned_less [of x, where ?'a = nat] by simp

lemma credit_exact:
  "unat (x :: uint256) + unat v < 2 ^ 256 \<Longrightarrow> unat (x + v) = unat x + unat v"
  using unat_add_lem [of x v] by simp

lemma debit_exact:
  "\<not> (x :: uint256) < v \<Longrightarrow> unat (x - v) = unat x - unat v \<and> unat v \<le> unat x"
  by (simp add: not_less unat_sub word_le_nat_alt)


lemma erc20_update_Inr_iff:
  "erc20_update from to v t = Inr t' \<longleftrightarrow>
     (if from = 0 then unat (totalSupply t) + unat v < 2 ^ 256 else v \<le> balances t from) \<and>
     t' = (let t1 = (if from = 0 then t\<lparr>totalSupply := totalSupply t + v\<rparr>
                     else t\<lparr>balances := (balances t)(from := balances t from - v)\<rparr>)
           in if to = 0 then t1\<lparr>totalSupply := totalSupply t1 - v\<rparr>
              else t1\<lparr>balances := (balances t1)(to := balances t1 to + v)\<rparr>)"
  by (auto simp add: erc20_update_def Let_def not_less)

lemma mint_accounted:
  assumes acc: "total b = unat s" and fits: "unat s + unat v < 2 ^ 256"
  shows "total (b(to := b to + v)) = unat (s + v)"
proof -
  have "unat (b to) + unat v < 2 ^ 256"
    using le_total [of b to] acc fits by simp
  then have "unat (b to + v) = unat (b to) + unat v"
    by (rule credit_exact)
  moreover have "unat (s + v) = unat s + unat v"
    using fits by (rule credit_exact)
  ultimately show ?thesis
    using total_upd [of b to "b to + v"] acc by simp
qed

lemma burn_accounted:
  assumes acc: "total b = unat s" and has: "v \<le> b from"
  shows "total (b(from := b from - v)) = unat (s - v)"
proof -
  have d: "unat (b from - v) = unat (b from) - unat v" "unat v \<le> unat (b from)"
    using has debit_exact [of "b from" v] by (simp_all add: not_less)
  have "unat v \<le> unat s"
    using d(2) le_total [of b "from"] acc by simp
  then have "unat (s - v) = unat s - unat v"
    by (simp add: unat_sub word_le_nat_alt)
  then show ?thesis
    using total_upd [of b "from" "b from - v"] acc d by simp
qed

lemma move_exact:
  assumes acc: "total b = unat (s :: uint256)" and has: "v \<le> b from" and ne: "from \<noteq> to"
  shows "unat ((b(from := b from - v)) from) = unat (b from) - unat v"
    and "unat v \<le> unat (b from)"
    and "unat (b to + v) = unat (b to) + unat v"
proof -
  show d: "unat ((b(from := b from - v)) from) = unat (b from) - unat v"
    and d2: "unat v \<le> unat (b from)"
    using has debit_exact [of "b from" v] by (simp_all add: not_less)
  have "unat (b from) + unat (b to) \<le> unat s"
    using two_le_total [OF ne, of b] acc by simp
  then have "unat (b to) + unat v < 2 ^ 256"
    using d2 unat_bound [of s] by simp
  then show "unat (b to + v) = unat (b to) + unat v"
    by (rule credit_exact)
qed

lemma move_accounted:
  assumes acc: "total b = unat (s :: uint256)" and has: "v \<le> b from"
  shows "total ((b(from := b from - v))(to := (b(from := b from - v)) to + v)) = total b"
proof (cases "from = to")
  case True
  then show ?thesis by simp
next
  case False
  note m = move_exact [OF acc has False]
  have "total (b(from := b from - v)) + unat v = total b"
    using total_upd [of b "from" "b from - v"] m(1,2) by simp
  moreover have "total ((b(from := b from - v))(to := b to + v)) = total (b(from := b from - v)) + unat v"
    using total_upd [of "b(from := b from - v)" to "b to + v"] m(3) False by simp
  ultimately show ?thesis using False by simp
qed

lemma erc20_update_accounted:
  assumes "supply_accounted t" and "erc20_update from to v t = Inr t'"
  shows "supply_accounted t'"
proof -
  from assms(1) have acc: "total (balances t) = unat (totalSupply t)"
    by (simp add: supply_accounted_def sumBalances_total)
  show ?thesis
  proof (cases "from = 0")
    case f0: True
    with assms(2) have fits: "unat (totalSupply t) + unat v < 2 ^ 256"
      by (simp add: erc20_update_Inr_iff)
    show ?thesis
    proof (cases "to = 0")
      case True
      with f0 assms(2) acc show ?thesis
        by (simp add: erc20_update_Inr_iff supply_accounted_def sumBalances_total)
    next
      case False
      with f0 assms(2) mint_accounted [OF acc fits, of to] show ?thesis
        by (simp add: erc20_update_Inr_iff supply_accounted_def sumBalances_total)
    qed
  next
    case f: False
    with assms(2) have has: "v \<le> balances t from"
      by (simp add: erc20_update_Inr_iff)
    show ?thesis
    proof (cases "to = 0")
      case True
      with f assms(2) burn_accounted [OF acc has] show ?thesis
        by (simp add: erc20_update_Inr_iff supply_accounted_def sumBalances_total)
    next
      case False
      with f assms(2) move_accounted [OF acc has, of to] acc show ?thesis
        by (simp add: erc20_update_Inr_iff supply_accounted_def sumBalances_total Let_def)
    qed
  qed
qed

section \<open>When the calls go through, and what they change\<close>

lemma erc20_transfer_Inr_iff:
  "erc20_transfer from to v t = Inr t' \<longleftrightarrow>
     from \<noteq> 0 \<and> to \<noteq> 0 \<and> v \<le> balances t from \<and>
     t' = t\<lparr>balances := ((balances t)(from := balances t from - v))
                (to := ((balances t)(from := balances t from - v)) to + v)\<rparr>"
  by (auto simp add: erc20_transfer_def erc20_update_Inr_iff Let_def)

lemma erc20_transfer_accounted:
  "supply_accounted t \<Longrightarrow> erc20_transfer from to v t = Inr t' \<Longrightarrow> supply_accounted t'"
  by (auto simp add: erc20_transfer_def intro: erc20_update_accounted split: if_splits)

lemma erc20_transfer_exact:
  assumes acc: "supply_accounted t" and tr: "erc20_transfer from to v t = Inr t'"
    and ne: "from \<noteq> to"
  shows "unat (balances t' from) = unat (balances t from) - unat v"
    and "unat v \<le> unat (balances t from)"
    and "unat (balances t' to) = unat (balances t to) + unat v"
proof -
  from acc have a: "total (balances t) = unat (totalSupply t)"
    by (simp add: supply_accounted_def sumBalances_total)
  from tr have has: "v \<le> balances t from"
    by (simp add: erc20_transfer_Inr_iff)
  note m = move_exact [OF a has ne]
  from tr ne m(1) show "unat (balances t' from) = unat (balances t from) - unat v"
    by (simp add: erc20_transfer_Inr_iff)
  from m(2) show "unat v \<le> unat (balances t from)" .
  from tr ne m(3) show "unat (balances t' to) = unat (balances t to) + unat v"
    by (simp add: erc20_transfer_Inr_iff)
qed

lemma spendAllowance_eq:
  "spendAllowance ownr spender v t =
     (if allowances t ownr spender = - 1 then Inr t
      else if allowances t ownr spender < v
      then Inl (ERC20InsufficientAllowance spender (allowances t ownr spender) v)
      else if ownr = 0 then Inl (ERC20InvalidApprover 0)
      else if spender = 0 then Inl (ERC20InvalidSpender 0)
      else Inr (t\<lparr>allowances := (allowances t)
                    (ownr := (allowances t ownr)(spender := allowances t ownr spender - v))\<rparr>))"
  by (simp add: spendAllowance_def erc20_approve_def Let_def word_order.not_eq_extremum [symmetric])

lemma transferFrom_Inr_iff:
  "transferFrom spender from to v t = Inr t' \<longleftrightarrow>
     from \<noteq> 0 \<and> to \<noteq> 0 \<and> v \<le> balances t from \<and>
     (allowances t from spender = - 1 \<or> v \<le> allowances t from spender \<and> spender \<noteq> 0) \<and>
     t' = t\<lparr>allowances :=
               (if allowances t from spender = - 1 then allowances t
                else (allowances t)
                       (from := (allowances t from)(spender := allowances t from spender - v))),
             balances := ((balances t)(from := balances t from - v))
                (to := ((balances t)(from := balances t from - v)) to + v)\<rparr>"
  by (auto simp add: transferFrom_def spendAllowance_eq erc20_transfer_Inr_iff not_less)

lemma lock_Inr_iff:
  "lock c a d w = Inr w' \<longleftrightarrow>
     0 < a \<and>
     (\<exists>t'. transferFrom (sourceBridgeAddress w) c (sourceBridgeAddress w) a (sourceToken w) = Inr t' \<and>
           w' = w\<lparr>sourceToken := t', tokenLocked := tokenLocked w @ [(c, a, d)]\<rparr>)"
  by (auto simp add: lock_def split: sum.splits)

lemma burn_Inr_iff:
  "burn c a d w = Inr w' \<longleftrightarrow>
     0 < a \<and> tok_owner (wrappedToken w) = destBridgeAddress w \<and> c \<noteq> 0 \<and>
     a \<le> balances (wrappedToken w) c \<and>
     w' = w\<lparr>wrappedToken := (wrappedToken w)
              \<lparr>balances := (balances (wrappedToken w))(c := balances (wrappedToken w) c - a),
               totalSupply := totalSupply (wrappedToken w) - a\<rparr>,
            tokenBurned := tokenBurned w @ [(c, a, d)]\<rparr>"
  by (auto simp add: burn_def burnFrom_def checkOwner_def erc20_burn_def erc20_update_def
      Let_def not_less word_gt_0)


section \<open>Lock and mint, burn and release\<close>

lemma total_zero: "total (\<lambda>_. 0) = 0"
  by (simp add: total_def)

lemma total_fresh: "f a = 0 \<Longrightarrow> total (f(a := v)) = total f + unat v"
  using total_upd [of f a v] by simp

lemma lock_mint_states:
  assumes wired: "wired relayer w"
    and acc: "supply_accounted (sourceToken w)"
    and U: "U \<noteq> 0" and B0: "sourceBridgeAddress w \<noteq> 0" and UB: "U \<noteq> sourceBridgeAddress w"
    and pos: "0 < amount"
    and bal: "amount \<le> balances (sourceToken w) U"
    and alw: "amount \<le> allowances (sourceToken w) U (sourceBridgeAddress w)"
    and fits: "unat (totalSupply (wrappedToken w)) + unat amount < 2 ^ 256"
    and ev: "args event = (U, amount, U)"
  defines "B \<equiv> sourceBridgeAddress w"
  defines "w1 \<equiv> w\<lparr>sourceToken := (sourceToken w)
            \<lparr>allowances :=
               (if allowances (sourceToken w) U B = - 1 then allowances (sourceToken w)
                else (allowances (sourceToken w))
                       (U := (allowances (sourceToken w) U)
                          (B := allowances (sourceToken w) U B - amount))),
             balances := (balances (sourceToken w))
                (U := balances (sourceToken w) U - amount,
                 B := balances (sourceToken w) B + amount)\<rparr>,
          tokenLocked := tokenLocked w @ [(U, amount, U)]\<rparr>"
  defines "w2 \<equiv> w1\<lparr>wrappedToken := (wrappedToken w)
              \<lparr>totalSupply := totalSupply (wrappedToken w) + amount,
               balances := (balances (wrappedToken w))
                 (U := balances (wrappedToken w) U + amount)\<rparr>\<rparr>"
  shows "lock U amount U w = Inr w1"
    and "onTokenLocked relayer event w1 =
           (w2, [Rule, DetectedTokenLocked, User U, Amount amount, Destination U,
                 CallingMintWrapped, MintWrappedSuccessful, Rule])"
    and "unat (balances (sourceToken w2) U) = unat (balances (sourceToken w) U) - unat amount"
    and "unat (balances (sourceToken w2) B) = unat (balances (sourceToken w) B) + unat amount"
    and "supply_accounted (sourceToken w2)"
proof -
  show l: "lock U amount U w = Inr w1"
    using U B0 UB pos bal alw
    by (auto simp add: lock_Inr_iff transferFrom_Inr_iff w1_def B_def)
  have "mintWrapped relayer U amount w1 = Inr w2"
    using wired U pos fits
    by (simp add: mintWrapped_Inr_iff wired_def w1_def w2_def)
  then show "onTokenLocked relayer event w1 =
           (w2, [Rule, DetectedTokenLocked, User U, Amount amount, Destination U,
                 CallingMintWrapped, MintWrappedSuccessful, Rule])"
    using ev by (simp add: onTokenLocked_def)
  from acc have a: "total (balances (sourceToken w)) = unat (totalSupply (sourceToken w))"
    by (simp add: supply_accounted_def sumBalances_total)
  have UB': "U \<noteq> B" using UB by (simp add: B_def)
  note m = move_exact [OF a bal UB']
  show "unat (balances (sourceToken w2) U) = unat (balances (sourceToken w) U) - unat amount"
    using m(1) UB' by (simp add: w2_def w1_def)
  show "unat (balances (sourceToken w2) B) = unat (balances (sourceToken w) B) + unat amount"
    using m(3) UB' by (simp add: w2_def w1_def)
  show "supply_accounted (sourceToken w2)"
    using move_accounted [OF a bal, of B] a UB'
    by (simp add: w2_def w1_def supply_accounted_def sumBalances_total)
qed


text \<open>
  C5. On a deployment wired as \<open>scripts/relayer.ts\<close> leaves it, a user \<open>U\<close> who holds at
  least the amount in source tokens and has approved the source bridge for it calls
  \<open>lock(amount, U)\<close>: the call goes through and emits \<open>TokenLocked(U, amount, U)\<close>, the
  reaction of the relayer to that event mints, and afterwards the wrapped balance of \<open>U\<close>
  is higher by the amount, so it is the amount (100 in the scenario) for a user who held
  no wrapped tokens, the source balance of \<open>U\<close> is lower by the amount and that of the
  source bridge higher by it. The amount is positive and the wrapped supply stays within
  256 bits, \<open>U\<close> is an account (not the zero address, not the bridge), and the source
  token is well formed.
\<close>

theorem lock_then_mint:
  assumes "wired relayer w"
    and "supply_accounted (sourceToken w)"
    and "U \<noteq> 0" and "sourceBridgeAddress w \<noteq> 0" and "U \<noteq> sourceBridgeAddress w"
    and "0 < amount"
    and "amount \<le> balances (sourceToken w) U"
    and "amount \<le> allowances (sourceToken w) U (sourceBridgeAddress w)"
    and "unat (totalSupply (wrappedToken w)) + unat amount < 2 ^ 256"
    and "args event = (U, amount, U)"
  shows "\<exists>w1 w2.
      lock U amount U w = Inr w1 \<and>
      tokenLocked w1 = tokenLocked w @ [args event] \<and>
      onTokenLocked relayer event w1 =
        (w2, [Rule, DetectedTokenLocked, User U, Amount amount, Destination U,
              CallingMintWrapped, MintWrappedSuccessful, Rule]) \<and>
      balances (wrappedToken w2) U = balances (wrappedToken w) U + amount \<and>
      (balances (wrappedToken w) U = 0 \<longrightarrow> balances (wrappedToken w2) U = amount) \<and>
      unat (balances (sourceToken w2) U) = unat (balances (sourceToken w) U) - unat amount \<and>
      unat (balances (sourceToken w2) (sourceBridgeAddress w2)) =
        unat (balances (sourceToken w) (sourceBridgeAddress w)) + unat amount"
proof -
  note s = lock_mint_states [OF assms]
  show ?thesis
    using s(1-4) assms(10) by (intro exI conjI) (assumption | simp)+
qed

lemma funded_accounted: "supply_accounted (sourceToken funded)"
  by (simp add: funded_def supply_accounted_def sumBalances_total total_fresh total_zero)

theorem lock_then_mint_witness:
  "wired 2 funded \<and> supply_accounted (sourceToken funded) \<and> (3::address) \<noteq> 0 \<and>
   sourceBridgeAddress funded \<noteq> 0 \<and> 3 \<noteq> sourceBridgeAddress funded \<and> (0::uint256) < 100 \<and>
   100 \<le> balances (sourceToken funded) 3 \<and>
   100 \<le> allowances (sourceToken funded) 3 (sourceBridgeAddress funded) \<and>
   unat (totalSupply (wrappedToken funded)) + unat (100::uint256) < 2 ^ 256 \<and>
   args (eventAt 1 (3, 100, 3)) = (3, 100, 3) \<and>
   balances (wrappedToken funded) 3 = 0 \<and>
   (\<exists>w1 w2.
      lock 3 100 3 funded = Inr w1 \<and>
      tokenLocked w1 = [(3, 100, 3)] \<and>
      onTokenLocked 2 (eventAt 1 (3, 100, 3)) w1 =
        (w2, [Rule, DetectedTokenLocked, User 3, Amount 100, Destination 3,
              CallingMintWrapped, MintWrappedSuccessful, Rule]) \<and>
      balances (wrappedToken w2) 3 = 100 \<and>
      unat (balances (sourceToken w2) 3) = 0 \<and>
      unat (balances (sourceToken w2) 18) = 100)"
proof -
  have h: "wired 2 funded" "(3::address) \<noteq> 0" "sourceBridgeAddress funded \<noteq> 0"
    "3 \<noteq> sourceBridgeAddress funded" "(0::uint256) < 100"
    "100 \<le> balances (sourceToken funded) 3"
    "100 \<le> allowances (sourceToken funded) 3 (sourceBridgeAddress funded)"
    "unat (totalSupply (wrappedToken funded)) + unat (100::uint256) < 2 ^ 256"
    "args (eventAt 1 (3, 100, 3)) = (3, 100, 3)"
    by (simp_all add: wired_def funded_def deployed_def eventAt_def)
  have e: "tokenLocked funded = []" "sourceBridgeAddress funded = 18"
    "balances (sourceToken funded) 3 = 100" "balances (sourceToken funded) 18 = 0"
    "balances (wrappedToken funded) 3 = 0"
    by (simp_all add: funded_def deployed_def)
  from lock_then_mint [OF h(1) funded_accounted h(2-9)]
  obtain w1 w2 where r: "lock 3 100 3 funded = Inr w1"
      "tokenLocked w1 = tokenLocked funded @ [args (eventAt 1 (3, 100, 3))]"
      "onTokenLocked 2 (eventAt 1 (3, 100, 3)) w1 =
        (w2, [Rule, DetectedTokenLocked, User 3, Amount 100, Destination 3,
              CallingMintWrapped, MintWrappedSuccessful, Rule])"
      "balances (wrappedToken funded) 3 = 0 \<longrightarrow> balances (wrappedToken w2) 3 = 100"
      "unat (balances (sourceToken w2) 3) = unat (balances (sourceToken funded) 3) - unat (100::uint256)"
      "unat (balances (sourceToken w2) (sourceBridgeAddress w2)) =
        unat (balances (sourceToken funded) (sourceBridgeAddress funded)) + unat (100::uint256)"
    by blast
  have "sourceBridgeAddress w2 = 18"
    using r(1,3) e(2)
    by (auto simp add: lock_Inr_iff onTokenLocked_def mintWrapped_Inr_iff Let_def
        split: prod.splits sum.splits)
  with r e h(9) have "lock 3 100 3 funded = Inr w1 \<and>
      tokenLocked w1 = [(3, 100, 3)] \<and>
      onTokenLocked 2 (eventAt 1 (3, 100, 3)) w1 =
        (w2, [Rule, DetectedTokenLocked, User 3, Amount 100, Destination 3,
              CallingMintWrapped, MintWrappedSuccessful, Rule]) \<and>
      balances (wrappedToken w2) 3 = 100 \<and>
      unat (balances (sourceToken w2) 3) = 0 \<and>
      unat (balances (sourceToken w2) 18) = 100"
    by simp
  then show ?thesis
    using h e(5) funded_accounted by blast
qed

lemma burn_release_states:
  assumes wired: "wired relayer w"
    and acc: "supply_accounted (sourceToken w)"
    and U: "U \<noteq> 0" and B0: "sourceBridgeAddress w \<noteq> 0" and UB: "U \<noteq> sourceBridgeAddress w"
    and pos: "0 < amount"
    and bal: "balances (wrappedToken w) U = amount"
    and lck: "amount \<le> balances (sourceToken w) (sourceBridgeAddress w)"
    and ev: "args event = (U, amount, U)"
  defines "B \<equiv> sourceBridgeAddress w"
  defines "w1 \<equiv> w\<lparr>wrappedToken := (wrappedToken w)
              \<lparr>balances := (balances (wrappedToken w))(U := 0),
               totalSupply := totalSupply (wrappedToken w) - amount\<rparr>,
            tokenBurned := tokenBurned w @ [(U, amount, U)]\<rparr>"
  defines "w2 \<equiv> w1\<lparr>sourceToken := (sourceToken w)
              \<lparr>balances := (balances (sourceToken w))
                 (B := balances (sourceToken w) B - amount,
                  U := balances (sourceToken w) U + amount)\<rparr>\<rparr>"
  shows "burn U amount U w = Inr w1"
    and "onTokenBurned relayer event w1 =
           (w2, [Rule, DetectedTokenBurned, User U, Amount amount, Destination U,
                 CallingRelease, ReleaseSuccessful, Rule])"
    and "unat (balances (sourceToken w2) B) = unat (balances (sourceToken w) B) - unat amount"
    and "unat (balances (sourceToken w2) U) = unat (balances (sourceToken w) U) + unat amount"
proof -
  show "burn U amount U w = Inr w1"
    using wired U pos bal by (simp add: burn_Inr_iff wired_def w1_def)
  have UB': "B \<noteq> U" using UB by (simp add: B_def)
  have "release relayer U amount w1 = Inr w2"
    using wired U B0 pos lck UB'
    by (simp add: release_Inr_iff wired_def w1_def w2_def B_def)
  then show "onTokenBurned relayer event w1 =
           (w2, [Rule, DetectedTokenBurned, User U, Amount amount, Destination U,
                 CallingRelease, ReleaseSuccessful, Rule])"
    using ev by (simp add: onTokenBurned_def)
  from acc have a: "total (balances (sourceToken w)) = unat (totalSupply (sourceToken w))"
    by (simp add: supply_accounted_def sumBalances_total)
  from lck have l: "amount \<le> balances (sourceToken w) B" by (simp add: B_def)
  note m = move_exact [OF a l UB']
  show "unat (balances (sourceToken w2) B) = unat (balances (sourceToken w) B) - unat amount"
    using m(1) UB' by (simp add: w2_def w1_def)
  show "unat (balances (sourceToken w2) U) = unat (balances (sourceToken w) U) + unat amount"
    using m(3) UB' by (simp add: w2_def w1_def)
qed


lemma round_trip_states:
  assumes wired: "wired relayer w"
    and acc: "supply_accounted (sourceToken w)"
    and U: "U \<noteq> 0" and B0: "sourceBridgeAddress w \<noteq> 0" and UB: "U \<noteq> sourceBridgeAddress w"
    and pos: "0 < amount"
    and bal: "amount \<le> balances (sourceToken w) U"
    and alw: "amount \<le> allowances (sourceToken w) U (sourceBridgeAddress w)"
    and fresh: "balances (wrappedToken w) U = 0"
    and fits: "unat (totalSupply (wrappedToken w)) + unat amount < 2 ^ 256"
    and ev: "args event = (U, amount, U)"
    and ev': "args event' = (U, amount, U)"
  shows "\<exists>w1 w2 w3 w4.
      lock U amount U w = Inr w1 \<and>
      onTokenLocked relayer event w1 =
        (w2, [Rule, DetectedTokenLocked, User U, Amount amount, Destination U,
              CallingMintWrapped, MintWrappedSuccessful, Rule]) \<and>
      burn U amount U w2 = Inr w3 \<and>
      onTokenBurned relayer event' w3 =
        (w4, [Rule, DetectedTokenBurned, User U, Amount amount, Destination U,
              CallingRelease, ReleaseSuccessful, Rule]) \<and>
      balances (sourceToken w4) = balances (sourceToken w) \<and>
      balances (wrappedToken w4) = balances (wrappedToken w) \<and>
      totalSupply (sourceToken w4) = totalSupply (sourceToken w) \<and>
      totalSupply (wrappedToken w4) = totalSupply (wrappedToken w)"
proof -
  define B where "B = sourceBridgeAddress w"
  define w1 where "w1 = w\<lparr>sourceToken := (sourceToken w)
            \<lparr>allowances :=
               (if allowances (sourceToken w) U B = - 1 then allowances (sourceToken w)
                else (allowances (sourceToken w))
                       (U := (allowances (sourceToken w) U)
                          (B := allowances (sourceToken w) U B - amount))),
             balances := (balances (sourceToken w))
                (U := balances (sourceToken w) U - amount,
                 B := balances (sourceToken w) B + amount)\<rparr>,
          tokenLocked := tokenLocked w @ [(U, amount, U)]\<rparr>"
  define w2 where "w2 = w1\<lparr>wrappedToken := (wrappedToken w)
              \<lparr>totalSupply := totalSupply (wrappedToken w) + amount,
               balances := (balances (wrappedToken w))
                 (U := balances (wrappedToken w) U + amount)\<rparr>\<rparr>"
  note s = lock_mint_states [OF wired acc U B0 UB pos bal alw fits ev]
  have l: "lock U amount U w = Inr w1"
    unfolding w1_def B_def by (rule s(1))
  have m: "onTokenLocked relayer event w1 =
        (w2, [Rule, DetectedTokenLocked, User U, Amount amount, Destination U,
              CallingMintWrapped, MintWrappedSuccessful, Rule])"
    unfolding w2_def w1_def B_def by (rule s(2))
  have acc2: "supply_accounted (sourceToken w2)"
    unfolding w2_def w1_def B_def by (rule s(5))
  have held: "amount \<le> balances (sourceToken w2) (sourceBridgeAddress w2)"
  proof -
    have "unat (balances (sourceToken w2) B) = unat (balances (sourceToken w) B) + unat amount"
      unfolding w2_def w1_def B_def by (rule s(4))
    moreover have "sourceBridgeAddress w2 = B"
      by (simp add: w1_def w2_def B_def)
    ultimately show ?thesis
      by (simp add: word_le_nat_alt)
  qed
  have pre: "wired relayer w2" "sourceBridgeAddress w2 \<noteq> 0" "U \<noteq> sourceBridgeAddress w2"
    "balances (wrappedToken w2) U = amount"
    using wired B0 UB fresh by (simp_all add: wired_def w1_def w2_def)
  define w3 where "w3 = w2\<lparr>wrappedToken := (wrappedToken w2)
              \<lparr>balances := (balances (wrappedToken w2))(U := 0),
               totalSupply := totalSupply (wrappedToken w2) - amount\<rparr>,
            tokenBurned := tokenBurned w2 @ [(U, amount, U)]\<rparr>"
  define w4 where "w4 = w3\<lparr>sourceToken := (sourceToken w2)
              \<lparr>balances := (balances (sourceToken w2))
                 (sourceBridgeAddress w2 :=
                    balances (sourceToken w2) (sourceBridgeAddress w2) - amount,
                  U := balances (sourceToken w2) U + amount)\<rparr>\<rparr>"
  note r = burn_release_states [OF pre(1) acc2 U pre(2) pre(3) pos pre(4) held ev']
  have b: "burn U amount U w2 = Inr w3"
    unfolding w3_def by (rule r(1))
  have rl: "onTokenBurned relayer event' w3 =
        (w4, [Rule, DetectedTokenBurned, User U, Amount amount, Destination U,
              CallingRelease, ReleaseSuccessful, Rule])"
    unfolding w4_def w3_def by (rule r(2))
  have UB': "U \<noteq> B" using UB by (simp add: B_def)
  have e1: "balances (sourceToken w4) = balances (sourceToken w)"
    using UB' by (simp add: w4_def w3_def w2_def w1_def B_def fun_eq_iff)
  have e2: "balances (wrappedToken w4) = balances (wrappedToken w)"
    using fresh by (simp add: w4_def w3_def w2_def w1_def fun_eq_iff)
  have e3: "totalSupply (sourceToken w4) = totalSupply (sourceToken w)"
    by (simp add: w4_def w3_def w2_def w1_def)
  have e4: "totalSupply (wrappedToken w4) = totalSupply (wrappedToken w)"
    by (simp add: w4_def w3_def w2_def w1_def)
  from l m b rl e1 e2 e3 e4 show ?thesis by blast
qed


text \<open>
  C6. On such a deployment, a user \<open>U\<close> who holds exactly the amount in wrapped tokens,
  while the source bridge holds at least the amount, calls \<open>burn(amount, U)\<close>: the call
  goes through and emits \<open>TokenBurned(U, amount, U)\<close>, the reaction of the relayer
  releases, and afterwards the wrapped balance of \<open>U\<close> is 0, the balance of the source
  bridge is lower by the amount and the source balance of \<open>U\<close> higher by it. And a lock,
  its mint, the burn and its release, one after the other from a state as in C5, lead to a
  state where every balance and the supply of both tokens are what they were.
\<close>

theorem burn_then_release:
  "(wired relayer w \<and> supply_accounted (sourceToken w) \<and>
    U \<noteq> 0 \<and> sourceBridgeAddress w \<noteq> 0 \<and> U \<noteq> sourceBridgeAddress w \<and> 0 < amount \<and>
    balances (wrappedToken w) U = amount \<and>
    amount \<le> balances (sourceToken w) (sourceBridgeAddress w) \<and>
    args event = (U, amount, U) \<longrightarrow>
    (\<exists>w1 w2.
       burn U amount U w = Inr w1 \<and>
       tokenBurned w1 = tokenBurned w @ [args event] \<and>
       onTokenBurned relayer event w1 =
         (w2, [Rule, DetectedTokenBurned, User U, Amount amount, Destination U,
               CallingRelease, ReleaseSuccessful, Rule]) \<and>
       balances (wrappedToken w2) U = 0 \<and>
       unat (balances (sourceToken w2) (sourceBridgeAddress w2)) =
         unat (balances (sourceToken w) (sourceBridgeAddress w)) - unat amount \<and>
       unat (balances (sourceToken w2) U) = unat (balances (sourceToken w) U) + unat amount)) \<and>
   (wired relayer w0 \<and> supply_accounted (sourceToken w0) \<and>
    U \<noteq> 0 \<and> sourceBridgeAddress w0 \<noteq> 0 \<and> U \<noteq> sourceBridgeAddress w0 \<and> 0 < amount \<and>
    amount \<le> balances (sourceToken w0) U \<and>
    amount \<le> allowances (sourceToken w0) U (sourceBridgeAddress w0) \<and>
    balances (wrappedToken w0) U = 0 \<and>
    unat (totalSupply (wrappedToken w0)) + unat amount < 2 ^ 256 \<and>
    args event0 = (U, amount, U) \<and> args event = (U, amount, U) \<longrightarrow>
    (\<exists>w1 w2 w3 w4.
       lock U amount U w0 = Inr w1 \<and>
       onTokenLocked relayer event0 w1 =
         (w2, [Rule, DetectedTokenLocked, User U, Amount amount, Destination U,
               CallingMintWrapped, MintWrappedSuccessful, Rule]) \<and>
       burn U amount U w2 = Inr w3 \<and>
       onTokenBurned relayer event w3 =
         (w4, [Rule, DetectedTokenBurned, User U, Amount amount, Destination U,
               CallingRelease, ReleaseSuccessful, Rule]) \<and>
       balances (sourceToken w4) = balances (sourceToken w0) \<and>
       balances (wrappedToken w4) = balances (wrappedToken w0) \<and>
       totalSupply (sourceToken w4) = totalSupply (sourceToken w0) \<and>
       totalSupply (wrappedToken w4) = totalSupply (wrappedToken w0)))"
proof (intro conjI impI)
  assume h: "wired relayer w \<and> supply_accounted (sourceToken w) \<and>
    U \<noteq> 0 \<and> sourceBridgeAddress w \<noteq> 0 \<and> U \<noteq> sourceBridgeAddress w \<and> 0 < amount \<and>
    balances (wrappedToken w) U = amount \<and>
    amount \<le> balances (sourceToken w) (sourceBridgeAddress w) \<and>
    args event = (U, amount, U)"
  then have a: "wired relayer w" "supply_accounted (sourceToken w)" "U \<noteq> 0"
    "sourceBridgeAddress w \<noteq> 0" "U \<noteq> sourceBridgeAddress w" "0 < amount"
    "balances (wrappedToken w) U = amount"
    "amount \<le> balances (sourceToken w) (sourceBridgeAddress w)"
    "args event = (U, amount, U)"
    by simp_all
  note r = burn_release_states [OF a]
  show "\<exists>w1 w2.
       burn U amount U w = Inr w1 \<and>
       tokenBurned w1 = tokenBurned w @ [args event] \<and>
       onTokenBurned relayer event w1 =
         (w2, [Rule, DetectedTokenBurned, User U, Amount amount, Destination U,
               CallingRelease, ReleaseSuccessful, Rule]) \<and>
       balances (wrappedToken w2) U = 0 \<and>
       unat (balances (sourceToken w2) (sourceBridgeAddress w2)) =
         unat (balances (sourceToken w) (sourceBridgeAddress w)) - unat amount \<and>
       unat (balances (sourceToken w2) U) = unat (balances (sourceToken w) U) + unat amount"
    using r a(9) by (intro exI conjI) (assumption | simp)+
next
  assume h: "wired relayer w0 \<and> supply_accounted (sourceToken w0) \<and>
    U \<noteq> 0 \<and> sourceBridgeAddress w0 \<noteq> 0 \<and> U \<noteq> sourceBridgeAddress w0 \<and> 0 < amount \<and>
    amount \<le> balances (sourceToken w0) U \<and>
    amount \<le> allowances (sourceToken w0) U (sourceBridgeAddress w0) \<and>
    balances (wrappedToken w0) U = 0 \<and>
    unat (totalSupply (wrappedToken w0)) + unat amount < 2 ^ 256 \<and>
    args event0 = (U, amount, U) \<and> args event = (U, amount, U)"
  then have a: "wired relayer w0" "supply_accounted (sourceToken w0)" "U \<noteq> 0"
    "sourceBridgeAddress w0 \<noteq> 0" "U \<noteq> sourceBridgeAddress w0" "0 < amount"
    "amount \<le> balances (sourceToken w0) U"
    "amount \<le> allowances (sourceToken w0) U (sourceBridgeAddress w0)"
    "balances (wrappedToken w0) U = 0"
    "unat (totalSupply (wrappedToken w0)) + unat amount < 2 ^ 256"
    "args event0 = (U, amount, U)" "args event = (U, amount, U)"
    by simp_all
  show "\<exists>w1 w2 w3 w4.
       lock U amount U w0 = Inr w1 \<and>
       onTokenLocked relayer event0 w1 =
         (w2, [Rule, DetectedTokenLocked, User U, Amount amount, Destination U,
               CallingMintWrapped, MintWrappedSuccessful, Rule]) \<and>
       burn U amount U w2 = Inr w3 \<and>
       onTokenBurned relayer event w3 =
         (w4, [Rule, DetectedTokenBurned, User U, Amount amount, Destination U,
               CallingRelease, ReleaseSuccessful, Rule]) \<and>
       balances (sourceToken w4) = balances (sourceToken w0) \<and>
       balances (wrappedToken w4) = balances (wrappedToken w0) \<and>
       totalSupply (sourceToken w4) = totalSupply (sourceToken w0) \<and>
       totalSupply (wrappedToken w4) = totalSupply (wrappedToken w0)"
    by (rule round_trip_states [OF a])
qed

lemma holding_accounted: "supply_accounted (sourceToken holding)"
  by (simp add: holding_def deployed_def supply_accounted_def sumBalances_total total_fresh
      total_zero)

theorem burn_then_release_witness:
  "(wired 2 holding \<and> supply_accounted (sourceToken holding) \<and>
    (3::address) \<noteq> 0 \<and> sourceBridgeAddress holding \<noteq> 0 \<and> 3 \<noteq> sourceBridgeAddress holding \<and>
    (0::uint256) < 100 \<and> balances (wrappedToken holding) 3 = 100 \<and>
    100 \<le> balances (sourceToken holding) (sourceBridgeAddress holding) \<and>
    args (eventAt 2 (3, 100, 3)) = (3, 100, 3)) \<and>
   (\<exists>w1 w2.
       burn 3 100 3 holding = Inr w1 \<and>
       tokenBurned w1 = tokenBurned holding @ [args (eventAt 2 (3, 100, 3))] \<and>
       onTokenBurned 2 (eventAt 2 (3, 100, 3)) w1 =
         (w2, [Rule, DetectedTokenBurned, User 3, Amount 100, Destination 3,
               CallingRelease, ReleaseSuccessful, Rule]) \<and>
       balances (wrappedToken w2) 3 = 0 \<and>
       unat (balances (sourceToken w2) (sourceBridgeAddress w2)) =
         unat (balances (sourceToken holding) (sourceBridgeAddress holding)) - unat (100::uint256) \<and>
       unat (balances (sourceToken w2) 3) =
         unat (balances (sourceToken holding) 3) + unat (100::uint256)) \<and>
   (wired 2 funded \<and> supply_accounted (sourceToken funded) \<and>
    (3::address) \<noteq> 0 \<and> sourceBridgeAddress funded \<noteq> 0 \<and> 3 \<noteq> sourceBridgeAddress funded \<and>
    (0::uint256) < 100 \<and>
    100 \<le> balances (sourceToken funded) 3 \<and>
    100 \<le> allowances (sourceToken funded) 3 (sourceBridgeAddress funded) \<and>
    balances (wrappedToken funded) 3 = 0 \<and>
    unat (totalSupply (wrappedToken funded)) + unat (100::uint256) < 2 ^ 256 \<and>
    args (eventAt 1 (3, 100, 3)) = (3, 100, 3) \<and> args (eventAt 2 (3, 100, 3)) = (3, 100, 3)) \<and>
   (\<exists>w1 w2 w3 w4.
       lock 3 100 3 funded = Inr w1 \<and>
       onTokenLocked 2 (eventAt 1 (3, 100, 3)) w1 =
         (w2, [Rule, DetectedTokenLocked, User 3, Amount 100, Destination 3,
               CallingMintWrapped, MintWrappedSuccessful, Rule]) \<and>
       burn 3 100 3 w2 = Inr w3 \<and>
       onTokenBurned 2 (eventAt 2 (3, 100, 3)) w3 =
         (w4, [Rule, DetectedTokenBurned, User 3, Amount 100, Destination 3,
               CallingRelease, ReleaseSuccessful, Rule]) \<and>
       balances (sourceToken w4) = balances (sourceToken funded) \<and>
       balances (wrappedToken w4) = balances (wrappedToken funded) \<and>
       totalSupply (sourceToken w4) = totalSupply (sourceToken funded) \<and>
       totalSupply (wrappedToken w4) = totalSupply (wrappedToken funded))"
proof -
  have h1: "wired 2 holding \<and> supply_accounted (sourceToken holding) \<and>
    (3::address) \<noteq> 0 \<and> sourceBridgeAddress holding \<noteq> 0 \<and> 3 \<noteq> sourceBridgeAddress holding \<and>
    (0::uint256) < 100 \<and> balances (wrappedToken holding) 3 = 100 \<and>
    100 \<le> balances (sourceToken holding) (sourceBridgeAddress holding) \<and>
    args (eventAt 2 (3, 100, 3)) = (3, 100, 3)"
    using holding_accounted by (simp add: wired_def holding_def deployed_def eventAt_def)
  have h2: "wired 2 funded \<and> supply_accounted (sourceToken funded) \<and>
    (3::address) \<noteq> 0 \<and> sourceBridgeAddress funded \<noteq> 0 \<and> 3 \<noteq> sourceBridgeAddress funded \<and>
    (0::uint256) < 100 \<and>
    100 \<le> balances (sourceToken funded) 3 \<and>
    100 \<le> allowances (sourceToken funded) 3 (sourceBridgeAddress funded) \<and>
    balances (wrappedToken funded) 3 = 0 \<and>
    unat (totalSupply (wrappedToken funded)) + unat (100::uint256) < 2 ^ 256 \<and>
    args (eventAt 1 (3, 100, 3)) = (3, 100, 3) \<and> args (eventAt 2 (3, 100, 3)) = (3, 100, 3)"
    using funded_accounted by (simp add: wired_def funded_def deployed_def eventAt_def)
  note t = burn_then_release [of 2 holding 3 100 "eventAt 2 (3, 100, 3)" funded "eventAt 1 (3, 100, 3)"]
  from t h1 h2 show ?thesis by blast
qed

section \<open>Conservation along the runs\<close>

lemma sent_Inl: "call (world s) = Inl e \<Longrightarrow> sent call s = s"
  by (simp add: sent_def transact_def Let_def)

lemma sent_Inr:
  "call (world s) = Inr w' \<Longrightarrow>
   sent call s =
     s\<lparr>world := w',
       pendingLocked := pendingLocked s @ drop (length (tokenLocked (world s))) (tokenLocked w'),
       pendingBurned := pendingBurned s @ drop (length (tokenBurned (world s))) (tokenBurned w')\<rparr>"
  by (simp add: sent_def transact_def Let_def)

lemma owed_append: "owed (xs @ ys) = owed xs + owed ys"
  by (simp add: owed_def)

lemma owed_remove1:
  "e \<in> set es \<Longrightarrow> owed (remove1 e es) + unat (fst (snd e)) = owed es"
  unfolding owed_def by (induction es) auto

lemma lock_world:
  assumes l: "lock c a d w = Inr w'"
    and acc: "supply_accounted (sourceToken w)"
    and c: "c \<noteq> sourceBridgeAddress w"
  shows "supply_accounted (sourceToken w')"
    and "locked w' = locked w + unat a"
    and "wrappedToken w' = wrappedToken w"
    and "tokenLocked w' = tokenLocked w @ [(c, a, d)]"
    and "tokenBurned w' = tokenBurned w"
proof -
  from acc have t: "total (balances (sourceToken w)) = unat (totalSupply (sourceToken w))"
    by (simp add: supply_accounted_def sumBalances_total)
  from l have has: "a \<le> balances (sourceToken w) c"
    by (auto simp add: lock_Inr_iff transferFrom_Inr_iff)
  note m = move_exact [OF t has c]
  from l c m(3) show "locked w' = locked w + unat a"
    by (auto simp add: lock_Inr_iff transferFrom_Inr_iff locked_def)
  from l c move_accounted [OF t has, of "sourceBridgeAddress w"] t
  show "supply_accounted (sourceToken w')"
    by (auto simp add: lock_Inr_iff transferFrom_Inr_iff supply_accounted_def sumBalances_total)
  from l show "wrappedToken w' = wrappedToken w"
    and "tokenLocked w' = tokenLocked w @ [(c, a, d)]"
    and "tokenBurned w' = tokenBurned w"
    by (auto simp add: lock_Inr_iff)
qed

lemma burn_world:
  assumes b: "burn c a d w = Inr w'"
    and acc: "supply_accounted (wrappedToken w)"
  shows "supply_accounted (wrappedToken w')"
    and "minted w' + unat a = minted w"
    and "sourceToken w' = sourceToken w"
    and "sourceBridgeAddress w' = sourceBridgeAddress w"
    and "tokenLocked w' = tokenLocked w"
    and "tokenBurned w' = tokenBurned w @ [(c, a, d)]"
proof -
  from acc have t: "total (balances (wrappedToken w)) = unat (totalSupply (wrappedToken w))"
    by (simp add: supply_accounted_def sumBalances_total)
  from b have has: "a \<le> balances (wrappedToken w) c"
    by (simp add: burn_Inr_iff)
  have "unat a \<le> unat (totalSupply (wrappedToken w))"
    using has le_total [of "balances (wrappedToken w)" c] t by (simp add: word_le_nat_alt)
  then have "unat (totalSupply (wrappedToken w) - a) + unat a = unat (totalSupply (wrappedToken w))"
    by (simp add: unat_sub word_le_nat_alt)
  with b show "minted w' + unat a = minted w"
    by (simp add: burn_Inr_iff minted_def)
  from b burn_accounted [OF t has] show "supply_accounted (wrappedToken w')"
    by (simp add: burn_Inr_iff supply_accounted_def sumBalances_total)
  from b show "sourceToken w' = sourceToken w"
    and "sourceBridgeAddress w' = sourceBridgeAddress w"
    and "tokenLocked w' = tokenLocked w"
    and "tokenBurned w' = tokenBurned w @ [(c, a, d)]"
    by (simp_all add: burn_Inr_iff)
qed

lemma mintWrapped_world:
  assumes m: "mintWrapped c u a w = Inr w'"
    and acc: "supply_accounted (wrappedToken w)"
  shows "supply_accounted (wrappedToken w')"
    and "minted w' = minted w + unat a"
    and "sourceToken w' = sourceToken w"
    and "sourceBridgeAddress w' = sourceBridgeAddress w"
proof -
  from acc have t: "total (balances (wrappedToken w)) = unat (totalSupply (wrappedToken w))"
    by (simp add: supply_accounted_def sumBalances_total)
  from m have fits: "unat (totalSupply (wrappedToken w)) + unat a < 2 ^ 256"
    by (simp add: mintWrapped_Inr_iff)
  from m credit_exact [OF fits] show "minted w' = minted w + unat a"
    by (simp add: mintWrapped_Inr_iff minted_def)
  from m mint_accounted [OF t fits, of u] show "supply_accounted (wrappedToken w')"
    by (simp add: mintWrapped_Inr_iff supply_accounted_def sumBalances_total)
  from m show "sourceToken w' = sourceToken w"
    and "sourceBridgeAddress w' = sourceBridgeAddress w"
    by (simp_all add: mintWrapped_Inr_iff)
qed

lemma release_world:
  assumes r: "release c u a w = Inr w'"
    and acc: "supply_accounted (sourceToken w)"
  shows "supply_accounted (sourceToken w')"
    and "locked w \<le> locked w' + unat a"
    and "wrappedToken w' = wrappedToken w"
proof -
  from acc have t: "total (balances (sourceToken w)) = unat (totalSupply (sourceToken w))"
    by (simp add: supply_accounted_def sumBalances_total)
  from r have has: "a \<le> balances (sourceToken w) (sourceBridgeAddress w)"
    by (simp add: release_Inr_iff)
  from r move_accounted [OF t has, of u] t show "supply_accounted (sourceToken w')"
    by (simp add: release_Inr_iff supply_accounted_def sumBalances_total)
  show "locked w \<le> locked w' + unat a"
  proof (cases "u = sourceBridgeAddress w")
    case True
    with r show ?thesis by (simp add: release_Inr_iff locked_def)
  next
    case False
    then have ne: "sourceBridgeAddress w \<noteq> u" by simp
    note m = move_exact [OF t has ne]
    from r ne m(1,2) show ?thesis by (simp add: release_Inr_iff locked_def)
  qed
  from r show "wrappedToken w' = wrappedToken w"
    by (simp add: release_Inr_iff)
qed


lemma covered_quiet:
  assumes cov: "covered s"
    and quiet: "\<And>w'. call (world s) = Inr w' \<Longrightarrow>
       supply_accounted (sourceToken w') \<and> supply_accounted (wrappedToken w') \<and>
       minted w' = minted (world s) \<and> locked (world s) \<le> locked w' \<and>
       tokenLocked w' = tokenLocked (world s) \<and> tokenBurned w' = tokenBurned (world s)"
  shows "covered (sent call s)"
proof (cases "call (world s)")
  case (Inl e)
  with cov show ?thesis by (simp add: sent_Inl)
next
  case (Inr w')
  from quiet [OF Inr] cov show ?thesis
    by (simp add: sent_Inr [of call s w', OF Inr] covered_def)
qed

lemma covered_lock:
  assumes cov: "covered s" and c: "account (world s) c"
  shows "covered (sent (lock c a d) s)"
proof (cases "lock c a d (world s)")
  case (Inl e)
  with cov show ?thesis by (simp add: sent_Inl)
next
  case (Inr w')
  from cov have acc: "supply_accounted (sourceToken (world s))"
    by (simp add: covered_def)
  from c have ne: "c \<noteq> sourceBridgeAddress (world s)"
    by (simp add: account_def)
  note l = lock_world [OF Inr acc ne]
  from l cov show ?thesis
    by (simp add: sent_Inr [of "lock c a d" s w', OF Inr] covered_def owed_append owed_def
        minted_def)
qed

lemma covered_burn:
  assumes cov: "covered s"
  shows "covered (sent (burn c a d) s)"
proof (cases "burn c a d (world s)")
  case (Inl e)
  with cov show ?thesis by (simp add: sent_Inl)
next
  case (Inr w')
  from cov have acc: "supply_accounted (wrappedToken (world s))"
    by (simp add: covered_def)
  note b = burn_world [OF Inr acc]
  from b(2) b(1,3-6) cov show ?thesis
    by (simp add: sent_Inr [of "burn c a d" s w', OF Inr] covered_def owed_append owed_def
        locked_def)
qed

lemma approve_frame:
  "approve c spender v t = Inr t' \<Longrightarrow>
   balances t' = balances t \<and> totalSupply t' = totalSupply t"
  by (auto simp add: approve_def erc20_approve_def split: if_splits)

lemma covered_approveSource:
  assumes cov: "covered s"
  shows "covered (sent (onSourceToken (approve c spender v)) s)"
proof (rule covered_quiet [OF cov])
  fix w' assume "onSourceToken (approve c spender v) (world s) = Inr w'"
  then obtain t' where t': "approve c spender v (sourceToken (world s)) = Inr t'"
    and w': "w' = (world s)\<lparr>sourceToken := t'\<rparr>"
    by (auto simp add: onSourceToken_def split: sum.splits)
  from approve_frame [OF t'] cov w'
  show "supply_accounted (sourceToken w') \<and> supply_accounted (wrappedToken w') \<and>
       minted w' = minted (world s) \<and> locked (world s) \<le> locked w' \<and>
       tokenLocked w' = tokenLocked (world s) \<and> tokenBurned w' = tokenBurned (world s)"
    by (simp add: covered_def supply_accounted_def sumBalances_def minted_def locked_def)
qed

lemma covered_approveWrapped:
  assumes cov: "covered s"
  shows "covered (sent (onWrappedToken (approve c spender v)) s)"
proof (rule covered_quiet [OF cov])
  fix w' assume "onWrappedToken (approve c spender v) (world s) = Inr w'"
  then obtain t' where t': "approve c spender v (wrappedToken (world s)) = Inr t'"
    and w': "w' = (world s)\<lparr>wrappedToken := t'\<rparr>"
    by (auto simp add: onWrappedToken_def split: sum.splits)
  from approve_frame [OF t'] cov w'
  show "supply_accounted (sourceToken w') \<and> supply_accounted (wrappedToken w') \<and>
       minted w' = minted (world s) \<and> locked (world s) \<le> locked w' \<and>
       tokenLocked w' = tokenLocked (world s) \<and> tokenBurned w' = tokenBurned (world s)"
    by (simp add: covered_def supply_accounted_def sumBalances_def minted_def locked_def)
qed

lemma covered_transferSource:
  assumes cov: "covered s" and c: "account (world s) c"
  shows "covered (sent (onSourceToken (transfer c to v)) s)"
proof (rule covered_quiet [OF cov])
  fix w' assume "onSourceToken (transfer c to v) (world s) = Inr w'"
  then obtain t' where t': "erc20_transfer c to v (sourceToken (world s)) = Inr t'"
    and w': "w' = (world s)\<lparr>sourceToken := t'\<rparr>"
    by (auto simp add: onSourceToken_def transfer_def split: sum.splits)
  from cov have acc: "supply_accounted (sourceToken (world s))"
    and accw: "supply_accounted (wrappedToken (world s))"
    by (simp_all add: covered_def)
  from c have ne: "c \<noteq> sourceBridgeAddress (world s)"
    by (simp add: account_def)
  have "locked (world s) \<le> locked w'"
  proof (cases "to = sourceBridgeAddress (world s)")
    case True
    with ne have "c \<noteq> to" by simp
    from erc20_transfer_exact(3) [OF acc t' this] True w' show ?thesis
      by (simp add: locked_def)
  next
    case False
    with t' ne w' show ?thesis
      by (simp add: erc20_transfer_Inr_iff locked_def)
  qed
  with erc20_transfer_accounted [OF acc t'] accw w' t'
  show "supply_accounted (sourceToken w') \<and> supply_accounted (wrappedToken w') \<and>
       minted w' = minted (world s) \<and> locked (world s) \<le> locked w' \<and>
       tokenLocked w' = tokenLocked (world s) \<and> tokenBurned w' = tokenBurned (world s)"
    by (simp add: minted_def)
qed

lemma covered_transferWrapped:
  assumes cov: "covered s"
  shows "covered (sent (onWrappedToken (transfer c to v)) s)"
proof (rule covered_quiet [OF cov])
  fix w' assume "onWrappedToken (transfer c to v) (world s) = Inr w'"
  then obtain t' where t': "erc20_transfer c to v (wrappedToken (world s)) = Inr t'"
    and w': "w' = (world s)\<lparr>wrappedToken := t'\<rparr>"
    by (auto simp add: onWrappedToken_def transfer_def split: sum.splits)
  from cov have acc: "supply_accounted (sourceToken (world s))"
    and accw: "supply_accounted (wrappedToken (world s))"
    by (simp_all add: covered_def)
  from t' have "totalSupply t' = totalSupply (wrappedToken (world s))"
    by (simp add: erc20_transfer_Inr_iff)
  with erc20_transfer_accounted [OF accw t'] acc w'
  show "supply_accounted (sourceToken w') \<and> supply_accounted (wrappedToken w') \<and>
       minted w' = minted (world s) \<and> locked (world s) \<le> locked w' \<and>
       tokenLocked w' = tokenLocked (world s) \<and> tokenBurned w' = tokenBurned (world s)"
    by (simp add: minted_def locked_def)
qed

lemma covered_setRelayer:
  assumes cov: "covered s"
  shows "covered (sent (BridgeSource_setRelayer c r) s)"
    and "covered (sent (BridgeDest_setRelayer c r) s)"
proof -
  show "covered (sent (BridgeSource_setRelayer c r) s)"
    by (rule covered_quiet [OF cov])
       (use cov in \<open>auto simp add: BridgeSource_setRelayer_def covered_def minted_def locked_def
          split: sum.splits\<close>)
  show "covered (sent (BridgeDest_setRelayer c r) s)"
    by (rule covered_quiet [OF cov])
       (use cov in \<open>auto simp add: BridgeDest_setRelayer_def covered_def minted_def locked_def
          split: sum.splits\<close>)
qed

lemma covered_deliverLocked:
  assumes cov: "covered s" and pend: "args event \<in> set (pendingLocked s)"
  shows "covered (s\<lparr>world := fst (onTokenLocked relayer event (world s)),
                    pendingLocked := remove1 (args event) (pendingLocked s)\<rparr>)"
proof -
  obtain u a d where ev: "args event = (u, a, d)"
    by (cases "args event")
  from owed_remove1 [OF pend] ev
  have o: "owed (remove1 (args event) (pendingLocked s)) + unat a = owed (pendingLocked s)"
    by simp
  show ?thesis
  proof (cases "mintWrapped relayer d a (world s)")
    case (Inl e)
    then have "fst (onTokenLocked relayer event (world s)) = world s"
      using ev by (simp add: onTokenLocked_transact transact_def)
    with cov o show ?thesis by (simp add: covered_def)
  next
    case (Inr w')
    then have w': "fst (onTokenLocked relayer event (world s)) = w'"
      using ev by (simp add: onTokenLocked_transact transact_def)
    from cov have acc: "supply_accounted (wrappedToken (world s))"
      by (simp add: covered_def)
    note m = mintWrapped_world [OF Inr acc]
    from m cov o show ?thesis
      by (simp add: w' covered_def locked_def)
  qed
qed

lemma covered_deliverBurned:
  assumes cov: "covered s" and pend: "args event \<in> set (pendingBurned s)"
  shows "covered (s\<lparr>world := fst (onTokenBurned relayer event (world s)),
                    pendingBurned := remove1 (args event) (pendingBurned s)\<rparr>)"
proof -
  obtain u a d where ev: "args event = (u, a, d)"
    by (cases "args event")
  from owed_remove1 [OF pend] ev
  have o: "owed (remove1 (args event) (pendingBurned s)) + unat a = owed (pendingBurned s)"
    by simp
  show ?thesis
  proof (cases "release relayer d a (world s)")
    case (Inl e)
    then have "fst (onTokenBurned relayer event (world s)) = world s"
      using ev by (simp add: onTokenBurned_transact transact_def)
    with cov o show ?thesis by (simp add: covered_def)
  next
    case (Inr w')
    then have w': "fst (onTokenBurned relayer event (world s)) = w'"
      using ev by (simp add: onTokenBurned_transact transact_def)
    from cov have acc: "supply_accounted (sourceToken (world s))"
      by (simp add: covered_def)
    note r = release_world [OF Inr acc]
    from r cov o show ?thesis
      by (simp add: w' covered_def minted_def)
  qed
qed

lemma covered_step:
  assumes cov: "covered s" and st: "step relayer a s = Some s'"
  shows "covered s'"
proof (cases a)
  case (Lock c amount destination)
  with st cov show ?thesis by (auto simp add: covered_lock split: if_splits)
next
  case (Burn c amount destination)
  with st cov show ?thesis by (auto simp add: covered_burn split: if_splits)
next
  case (ApproveSource c spender v)
  with st cov show ?thesis by (auto simp add: covered_approveSource split: if_splits)
next
  case (ApproveWrapped c spender v)
  with st cov show ?thesis by (auto simp add: covered_approveWrapped split: if_splits)
next
  case (TransferSource c to v)
  with st cov show ?thesis by (auto simp add: covered_transferSource split: if_splits)
next
  case (TransferWrapped c to v)
  with st cov show ?thesis by (auto simp add: covered_transferWrapped split: if_splits)
next
  case (CallMintWrapped c user amount)
  with st have "c \<noteq> dst_relayer (destBridge (world s))"
    and s': "s' = sent (mintWrapped c user amount) s"
    by (auto split: if_splits)
  then have "mintWrapped c user amount (world s) = Inl (Error ''BridgeDest: Caller is not the relayer'')"
    by (simp add: mintWrapped_def)
  with cov s' show ?thesis by (simp add: sent_Inl)
next
  case (CallRelease c user amount)
  with st have "c \<noteq> src_relayer (sourceBridge (world s))"
    and s': "s' = sent (release c user amount) s"
    by (auto split: if_splits)
  then have "release c user amount (world s) = Inl (Error ''BridgeSource: Caller is not the relayer'')"
    by (simp add: release_def)
  with cov s' show ?thesis by (simp add: sent_Inl)
next
  case (SetRelayerSource c r)
  with st cov show ?thesis by (auto simp add: covered_setRelayer split: if_splits)
next
  case (SetRelayerDest c r)
  with st cov show ?thesis by (auto simp add: covered_setRelayer split: if_splits)
next
  case (DeliverLocked event)
  with st cov show ?thesis by (auto simp add: covered_deliverLocked split: if_splits)
next
  case (DeliverBurned event)
  with st cov show ?thesis by (auto simp add: covered_deliverBurned split: if_splits)
qed

lemma covered_run:
  "covered s \<Longrightarrow> run relayer acts s = Some s' \<Longrightarrow> covered s'"
proof (induction acts arbitrary: s)
  case Nil
  then show ?case by simp
next
  case (Cons a acts)
  from Cons.prems(2) obtain s1 where s1: "step relayer a s = Some s1"
    and r: "run relayer acts s1 = Some s'"
    by (auto split: option.splits)
  from covered_step [OF Cons.prems(1) s1] r show ?case
    by (rule Cons.IH)
qed

lemma nothing_bridged_covered: "nothing_bridged s \<Longrightarrow> covered s"
  by (simp add: nothing_bridged_def covered_def minted_def owed_def)

text \<open>
  C2 (as amended). Take a run that starts where nothing is bridged yet, in which accounts
  send \<open>lock\<close>, \<open>burn\<close>, approvals and transfers of both tokens and \<open>setRelayer\<close> in any
  order, anyone but the configured relayer calls \<open>mintWrapped\<close> and \<open>release\<close>, and the
  relayer script reacts to each emitted event at most once. At every state of the run the
  supply of the wrapped token is at most the amount of source tokens the source bridge
  holds.
\<close>

theorem minted_within_locked:
  assumes "nothing_bridged s0" and "run relayer acts s0 = Some s"
  shows "minted (world s) \<le> locked (world s)"
proof -
  from assms(1) have "covered s0"
    by (rule nothing_bridged_covered)
  then have "covered s"
    using assms(2) by (rule covered_run)
  then show ?thesis
    by (simp add: covered_def)
qed


lemma start_nothing_bridged: "nothing_bridged start"
  using funded_accounted
  by (simp add: nothing_bridged_def start_def funded_def deployed_def supply_accounted_def
      sumBalances_total total_zero)

lemmas run_defs = sent_def transact_def account_def lock_def burn_def transferFrom_def
  spendAllowance_def erc20_approve_def burnFrom_def erc20_burn_def
  onSourceToken_def onWrappedToken_def approve_def

theorem minted_within_locked_witness:
  "nothing_bridged start \<and>
   (\<exists>s. run 2 [Lock 3 100 3, CallMintWrapped 3 3 100, DeliverLocked (eventAt 1 (3, 100, 3)),
               Burn 3 40 3, DeliverBurned (eventAt 2 (3, 40, 3))] start = Some s \<and>
        minted (world s) = 60 \<and> locked (world s) = 60 \<and> minted (world s) \<le> locked (world s))"
proof -
  have "\<exists>s. run 2 [Lock 3 100 3, CallMintWrapped 3 3 100, DeliverLocked (eventAt 1 (3, 100, 3)),
               Burn 3 40 3, DeliverBurned (eventAt 2 (3, 40, 3))] start = Some s \<and>
        minted (world s) = 60 \<and> locked (world s) = 60"
    by (simp add: start_def funded_def deployed_def run_defs eval_defs minted_def locked_def)
  then obtain s where r: "run 2 [Lock 3 100 3, CallMintWrapped 3 3 100,
      DeliverLocked (eventAt 1 (3, 100, 3)), Burn 3 40 3, DeliverBurned (eventAt 2 (3, 40, 3))] start
      = Some s"
    and v: "minted (world s) = 60" "locked (world s) = 60"
    by blast
  from minted_within_locked [OF start_nothing_bridged r] r v start_nothing_bridged
  show ?thesis by blast
qed

text \<open>
  The relayer of the deployed bridges calls \<open>mintWrapped\<close> while nothing is locked: the
  call goes through, 100 wrapped tokens exist and the source bridge holds nothing. And
  when the event of one lock of 100 is delivered to the script twice, 200 wrapped tokens
  exist against the 100 that are locked.
\<close>

theorem unbacked_mint_counterexample:
  "dst_relayer (destBridge deployed) = 2 \<and>
   mintWrapped 2 3 100 deployed \<noteq> Inl (Error ''BridgeDest: Caller is not the relayer'') \<and>
   minted (fst (transact (mintWrapped 2 3 100) deployed)) = 100 \<and>
   locked (fst (transact (mintWrapped 2 3 100) deployed)) = 0 \<and>
   minted (fst (listen 2 [TokenLockedEvent (eventAt 1 (3, 100, 3)),
                          TokenLockedEvent (eventAt 1 (3, 100, 3))] afterLock)) = 200 \<and>
   locked (fst (listen 2 [TokenLockedEvent (eventAt 1 (3, 100, 3)),
                          TokenLockedEvent (eventAt 1 (3, 100, 3))] afterLock)) = 100"
  by (simp add: eval_defs deployed_def afterLock_def minted_def locked_def)

end
